(* ===== verification/Prelude.thy ===== *)
theory Prelude
  imports Main "HOL-Library.Word" "HOL-Library.Multiset" "HOL-Library.Sublist"
begin

text \<open>
  What the components share: the outcome of a Go call that may panic, the list
  operations that Go slice expressions compute (insertion at an index, removal of the first
  element that satisfies a test), the stability lemmas for ordered insertion, and the
  \<open>named_theorems\<close> collections the component proofs are carried by.
\<close>

named_theorems config_ops \<open>the operations of a watched configuration, to unfold\<close>
named_theorems counter_defs \<open>the methods of the counting response writer, to unfold\<close>
named_theorems body_simps \<open>the body of a response after a method of its writer\<close>

section \<open>Outcomes of calls that may panic\<close>

datatype 'a outcome = Panic | Ret 'a

fun bind_outcome :: "'a outcome \<Rightarrow> ('a \<Rightarrow> 'b outcome) \<Rightarrow> 'b outcome" where
  "bind_outcome Panic f = Panic"
| "bind_outcome (Ret x) f = f x"

lemma bind_outcome_assoc: "bind_outcome (bind_outcome r f) g = bind_outcome r (\<lambda>x. bind_outcome (f x) g)"
  by (cases r) simp_all

lemma bind_outcome_eq_Ret [simp]:
  "bind_outcome r f = Ret y \<longleftrightarrow> (\<exists>x. r = Ret x \<and> f x = Ret y)"
  by (cases r) auto

lemma not_Panic_iff: "r \<noteq> Panic \<longleftrightarrow> (\<exists>x. r = Ret x)"
  by (cases r) auto

section \<open>Slices\<close>

text \<open>\<open>append(xs[:i+1], xs[i:]...)\<close> followed by \<open>xs[i] = x\<close> is an insertion at \<open>i\<close>.\<close>

lemma slice_insert:
  assumes "i < length xs"
  shows "(take (i + 1) xs @ drop i xs)[i := x] = take i xs @ x # drop i xs"
proof -
  have "take (i + 1) xs = take i xs @ [xs ! i]"
    using assms by (simp add: take_Suc_conv_app_nth)
  then show ?thesis
    using assms by (simp add: list_update_append)
qed

text \<open>Removal of the first element that satisfies a test, the loop of Go's
  \<open>append(xs[:i], xs[i+1:]...); return\<close>.\<close>

fun remove_first :: "('a \<Rightarrow> bool) \<Rightarrow> 'a list \<Rightarrow> 'a list" where
  "remove_first P [] = []"
| "remove_first P (x # xs) = (if P x then xs else x # remove_first P xs)"

lemma set_remove_first: "set (remove_first P xs) \<subseteq> set xs"
  by (induction xs) auto

lemma mset_map_remove_first:
  "image_mset f (mset (remove_first (\<lambda>x. f x = k) xs)) = image_mset f (mset xs) - {#k#}"
proof (induction xs)
  case Nil
  then show ?case by simp
next
  case (Cons x xs)
  then show ?case
    by (cases "f x = k") simp_all
qed

lemma remove_first_none: "\<forall>x \<in> set xs. \<not> P x \<Longrightarrow> remove_first P xs = xs"
  by (induction xs) auto

lemma remove_first_append:
  "remove_first P (xs @ ys) =
     (if \<exists>x \<in> set xs. P x then remove_first P xs @ ys else xs @ remove_first P ys)"
  by (induction xs) auto

section \<open>Results\<close>

text \<open>A call that returns no error.\<close>

definition is_ok :: "'e + 'a \<Rightarrow> bool" where
  "is_ok r = (case r of Inl _ \<Rightarrow> False | Inr _ \<Rightarrow> True)"

section \<open>Ordered insertion\<close>

text \<open>Inserting \<open>x\<close> keeps a list sorted with respect to any relation when everything before
  the position is related to \<open>x\<close> and \<open>x\<close> is related to everything after it.\<close>

lemma sorted_wrt_insert:
  assumes "sorted_wrt R (as @ bs)"
    and "\<forall>a \<in> set as. R a x" and "\<forall>b \<in> set bs. R x b"
  shows "sorted_wrt R (as @ x # bs)"
  using assms by (auto simp: sorted_wrt_append)

lemma sorted_wrt_cong_set:
  assumes "\<And>x y. x \<in> set xs \<Longrightarrow> y \<in> set xs \<Longrightarrow> R x y \<longleftrightarrow> S x y"
  shows "sorted_wrt R xs \<longleftrightarrow> sorted_wrt S xs"
  using assms by (induction xs) auto

lemma nth_update_map:
  assumes "f y = f (xs ! a)" "a < length xs"
  shows "f (xs[a := y] ! b) = f (xs ! b)"
  using assms by (cases "a = b") auto

lemma unat_of_nat32: "n < 2 ^ 32 \<Longrightarrow> unat (word_of_nat n :: 32 word) = n"
  by (simp add: unat_of_nat)

lemma two_le_count_nth:
  assumes "i < length xs" "j < length xs" "i \<noteq> j" "xs ! i = x" "xs ! j = x"
  shows "2 \<le> count (mset xs) x"
proof -
  have "card {i, j} \<le> card {k. k < length xs \<and> x = xs ! k}"
    using assms by (intro card_mono) auto
  then show ?thesis
    using assms(3) by (simp add: count_mset count_list_eq_length_filter length_filter_conv_card)
qed

lemma find_split:
  assumes "find P xs = Some x"
  obtains as bs where "xs = as @ x # bs" "P x" "\<forall>a \<in> set as. \<not> P a"
  using assms
proof (induction xs arbitrary: thesis)
  case Nil
  then show ?case by simp
next
  case (Cons y ys)
  show ?case
  proof (cases "P y")
    case True
    with Cons.prems show ?thesis by (force intro: Cons.prems(1) [of "[]"])
  next
    case False
    with Cons.prems(2) have "find P ys = Some x" by simp
    then obtain as bs where "ys = as @ x # bs" "P x" "\<forall>a \<in> set as. \<not> P a"
      using Cons.IH by blast
    with False show ?thesis by (force intro: Cons.prems(1) [of "y # as"])
  qed
qed

end
