(* ===== verification/GoStrings.thy ===== *)
theory GoStrings
  imports Prelude
begin

text \<open>
  The operations of Go's packages \<open>strings\<close> and \<open>unicode/utf8\<close> that razvhost calls. A Go string is
  a sequence of bytes, and so is an Isabelle \<open>string\<close> (a \<open>char\<close> is a byte): \<open>len\<close> is
  \<^const>\<open>length\<close> and an index counts bytes. Where Go returns \<open>-1\<close> for "not found" the model
  returns \<^const>\<open>None\<close>. White space is a property of code points in Go; a white-space code point
  is recognised here by its UTF-8 bytes, and since none of these encodings starts with a
  continuation byte, scanning byte by byte finds exactly the code points Go finds.
\<close>

section \<open>Prefixes, suffixes, searching\<close>

definition HasPrefix :: "string \<Rightarrow> string \<Rightarrow> bool" where
  "HasPrefix s p \<longleftrightarrow> take (length p) s = p"

definition HasSuffix :: "string \<Rightarrow> string \<Rightarrow> bool" where
  "HasSuffix s p \<longleftrightarrow> length p \<le> length s \<and> drop (length s - length p) s = p"

definition TrimPrefix :: "string \<Rightarrow> string \<Rightarrow> string" where
  "TrimPrefix s p = (if HasPrefix s p then drop (length p) s else s)"

definition ContainsAny :: "string \<Rightarrow> string \<Rightarrow> bool" where
  "ContainsAny s chars \<longleftrightarrow> list_ex (\<lambda>c. c \<in> set chars) s"

fun Index :: "string \<Rightarrow> string \<Rightarrow> nat option" where
  "Index [] sub = (if sub = [] then Some 0 else None)"
| "Index (c # s) sub =
     (if HasPrefix (c # s) sub then Some 0 else map_option Suc (Index s sub))"

definition Contains :: "string \<Rightarrow> string \<Rightarrow> bool" where
  "Contains s sub \<longleftrightarrow> Index s sub \<noteq> None"

lemma HasPrefix_prefix: "HasPrefix s p \<longleftrightarrow> prefix p s"
  by (auto simp: HasPrefix_def prefix_def) (metis append_take_drop_id)

lemma HasPrefix_append [simp]: "HasPrefix (p @ s) p"
  by (simp add: HasPrefix_def)

lemma HasPrefix_Nil [simp]: "HasPrefix s []"
  by (simp add: HasPrefix_def)

lemma HasPrefix_Cons [simp]:
  "HasPrefix (c # s) (d # p) \<longleftrightarrow> c = d \<and> HasPrefix s p"
  "\<not> HasPrefix [] (d # p)"
  by (auto simp: HasPrefix_def)

lemma HasPrefix_length: "HasPrefix s p \<Longrightarrow> length p \<le> length s"
  by (simp add: HasPrefix_prefix prefix_length_le)

lemma HasPrefix_same_length:
  "HasPrefix s p \<Longrightarrow> HasPrefix s q \<Longrightarrow> length p = length q \<Longrightarrow> p = q"
  by (auto simp: HasPrefix_def)

lemma HasSuffix_suffix: "HasSuffix s p \<longleftrightarrow> suffix p s"
  by (auto simp: HasSuffix_def suffix_def) (metis append_take_drop_id)

lemma HasSuffix_single: "HasSuffix s [c] \<longleftrightarrow> s \<noteq> [] \<and> last s = c"
  by (cases s rule: rev_cases) (auto simp: HasSuffix_def)

lemma TrimPrefix_prefix: "HasPrefix s p \<Longrightarrow> p @ TrimPrefix s p = s"
  by (metis HasPrefix_def TrimPrefix_def append_take_drop_id)

lemma TrimPrefix_append [simp]: "TrimPrefix (p @ s) p = s"
  by (simp add: TrimPrefix_def)

lemma TrimPrefix_not: "\<not> HasPrefix s p \<Longrightarrow> TrimPrefix s p = s"
  by (simp add: TrimPrefix_def)

lemma TrimPrefix_Nil [simp]: "TrimPrefix s [] = s"
  by (simp add: TrimPrefix_def)

lemma Index_Some_split:
  "Index s sub = Some i \<Longrightarrow> i + length sub \<le> length s \<and> take i s @ sub @ drop (i + length sub) s = s"
proof (induction s sub arbitrary: i rule: Index.induct)
  case (1 sub)
  then show ?case by (auto split: if_splits)
next
  case (2 c s sub)
  show ?case
  proof (cases "HasPrefix (c # s) sub")
    case True
    with "2.prems" have "i = 0" by simp
    with True show ?thesis
      by (metis HasPrefix_def HasPrefix_length add_0 append_take_drop_id self_append_conv2 take0)
  next
    case False
    with "2.prems" obtain j where j: "Index s sub = Some j" "i = Suc j" by auto
    with "2.IH" [OF False j(1)] show ?thesis by simp
  qed
qed

lemma Index_None_iff: "Index s sub = None \<longleftrightarrow> \<not> sublist sub s"
  by (induction s sub rule: Index.induct)
    (auto simp: HasPrefix_prefix sublist_Cons_right)

lemma Contains_sublist: "Contains s sub \<longleftrightarrow> sublist sub s"
  using Index_None_iff by (auto simp: Contains_def)

lemma Index_single:
  "Index s [c] = (if c \<in> set s then Some (length (takeWhile (\<lambda>x. x \<noteq> c) s)) else None)"
  by (induction s) auto

section \<open>Splitting and joining\<close>

text \<open>\<open>strings.SplitN\<close> with a non-empty separator and a positive count.\<close>

fun SplitN :: "string \<Rightarrow> string \<Rightarrow> nat \<Rightarrow> string list" where
  "SplitN s sep 0 = []"
| "SplitN s sep (Suc 0) = [s]"
| "SplitN s sep (Suc (Suc n)) =
     (case Index s sep of
        None \<Rightarrow> [s]
      | Some i \<Rightarrow> take i s # SplitN (drop (i + length sep) s) sep (Suc n))"

text \<open>\<open>strings.Split\<close> at a separator of one byte, the only way it is called.\<close>

fun Split :: "string \<Rightarrow> char \<Rightarrow> string list" where
  "Split [] sep = [[]]"
| "Split (c # s) sep =
     (if c = sep then [] # Split s sep
      else (case Split s sep of [] \<Rightarrow> [[c]] | p # ps \<Rightarrow> (c # p) # ps))"

fun Join :: "string list \<Rightarrow> string \<Rightarrow> string" where
  "Join [] sep = []"
| "Join [p] sep = p"
| "Join (p # q # ps) sep = p @ sep @ Join (q # ps) sep"

lemma Split_not_Nil [simp]: "Split s sep \<noteq> []"
  by (induction s) (auto split: list.splits)

lemma Join_Cons: "ps \<noteq> [] \<Longrightarrow> Join (p # ps) sep = p @ sep @ Join ps sep"
  by (cases ps) auto

lemma Join_Split: "Join (Split s sep) [sep] = s"
proof (induction s)
  case Nil
  then show ?case by simp
next
  case (Cons c s)
  obtain p ps where ps: "Split s sep = p # ps"
    by (metis Split_not_Nil neq_Nil_conv)
  with Cons show ?case
    by (cases ps) (auto simp: Join_Cons)
qed

lemma Split_no_sep: "sep \<notin> set s \<Longrightarrow> Split s sep = [s]"
  by (induction s) auto

lemma Split_append_sep: "sep \<notin> set p \<Longrightarrow> Split (p @ sep # s) sep = p # Split s sep"
  by (induction p) auto

lemma Split_parts_no_sep: "p \<in> set (Split s sep) \<Longrightarrow> sep \<notin> set p"
proof (induction s arbitrary: p)
  case Nil
  then show ?case by simp
next
  case (Cons c s)
  obtain q qs where "Split s sep = q # qs"
    by (metis Split_not_Nil neq_Nil_conv)
  with Cons show ?case by (auto split: if_splits)
qed

lemma length_Split: "length (Split s sep) = Suc (count_list s sep)"
proof (induction s)
  case Nil
  then show ?case by simp
next
  case (Cons c s)
  obtain q qs where "Split s sep = q # qs"
    by (metis Split_not_Nil neq_Nil_conv)
  with Cons show ?case by auto
qed

lemma SplitN_2: "SplitN s sep 2 =
    (case Index s sep of None \<Rightarrow> [s] | Some i \<Rightarrow> [take i s, drop (i + length sep) s])"
  by (simp add: numeral_2_eq_2 split: option.splits)

section \<open>Runes\<close>

abbreviation RuneError :: nat where "RuneError \<equiv> 0xFFFD"

definition cont_byte :: "nat \<Rightarrow> nat \<Rightarrow> char \<Rightarrow> bool" where
  "cont_byte lo hi c \<longleftrightarrow> lo \<le> of_char c \<and> of_char c \<le> hi"

text \<open>\<open>utf8.DecodeRuneInString\<close>: the first code point and its width in bytes; an invalid
  encoding is \<open>(RuneError, 1)\<close> and the empty string \<open>(RuneError, 0)\<close>.\<close>

definition DecodeRune :: "string \<Rightarrow> nat \<times> nat" where
  "DecodeRune s =
     (case s of
        [] \<Rightarrow> (RuneError, 0)
      | c0 # s1 \<Rightarrow>
         (let b0 = of_char c0 :: nat in
          if b0 < 0x80 then (b0, 1)
          else if 0xC2 \<le> b0 \<and> b0 \<le> 0xDF then
            (case s1 of
               c1 # _ \<Rightarrow> if cont_byte 0x80 0xBF c1
                         then ((b0 mod 32) * 64 + of_char c1 mod 64, 2) else (RuneError, 1)
             | _ \<Rightarrow> (RuneError, 1))
          else if 0xE0 \<le> b0 \<and> b0 \<le> 0xEF then
            (case s1 of
               c1 # c2 # _ \<Rightarrow>
                 if cont_byte (if b0 = 0xE0 then 0xA0 else 0x80) (if b0 = 0xED then 0x9F else 0xBF) c1
                    \<and> cont_byte 0x80 0xBF c2
                 then ((b0 mod 16) * 4096 + (of_char c1 mod 64) * 64 + of_char c2 mod 64, 3)
                 else (RuneError, 1)
             | _ \<Rightarrow> (RuneError, 1))
          else if 0xF0 \<le> b0 \<and> b0 \<le> 0xF4 then
            (case s1 of
               c1 # c2 # c3 # _ \<Rightarrow>
                 if cont_byte (if b0 = 0xF0 then 0x90 else 0x80) (if b0 = 0xF4 then 0x8F else 0xBF) c1
                    \<and> cont_byte 0x80 0xBF c2 \<and> cont_byte 0x80 0xBF c3
                 then ((b0 mod 8) * 262144 + (of_char c1 mod 64) * 4096
                        + (of_char c2 mod 64) * 64 + of_char c3 mod 64, 4)
                 else (RuneError, 1)
             | _ \<Rightarrow> (RuneError, 1))
          else (RuneError, 1)))"

lemma DecodeRune_width: "s \<noteq> [] \<Longrightarrow> 0 < snd (DecodeRune s) \<and> snd (DecodeRune s) \<le> length s"
  by (auto simp: DecodeRune_def Let_def split: list.splits)

lemma DecodeRune_ascii:
  "of_char c < (0x80 :: nat) \<Longrightarrow> DecodeRune (c # s) = (of_char c, 1)"
  by (simp add: DecodeRune_def)

text \<open>\<open>utf8.ValidString\<close>.\<close>

function ValidString :: "string \<Rightarrow> bool" where
  "ValidString s =
     (if s = [] then True
      else if DecodeRune s = (RuneError, 1) then False
      else ValidString (drop (snd (DecodeRune s)) s))"
  by pat_completeness auto
termination
proof (relation "measure length", goal_cases)
  case (2 s)
  then show ?case using DecodeRune_width [of s] by simp
qed simp

declare ValidString.simps [simp del]

lemma ValidString_ascii [simp]:
  "ValidString []" "of_char c < (0x80 :: nat) \<Longrightarrow> ValidString (c # s) = ValidString s"
  by (simp_all add: ValidString.simps [of "[]"] ValidString.simps [of "c # s"] DecodeRune_ascii)

section \<open>White space\<close>

text \<open>The width of the white-space code point a string starts with, 0 if there is none
  (\<open>unicode.IsSpace\<close>: the ASCII blanks, U+0085, U+00A0, U+1680, U+2000 to U+200A, U+2028, U+2029,
  U+202F, U+205F and U+3000, by their encodings).\<close>

definition ascii_space :: "char \<Rightarrow> bool" where
  "ascii_space c \<longleftrightarrow> of_char c \<in> {9, 10, 11, 12, 13, 32 :: nat}"

fun space2 :: "char \<Rightarrow> char \<Rightarrow> bool" where
  "space2 a b \<longleftrightarrow> of_char a = (0xC2 :: nat) \<and> of_char b \<in> {0x85, 0xA0 :: nat}"

fun space3 :: "char \<Rightarrow> char \<Rightarrow> char \<Rightarrow> bool" where
  "space3 a b c \<longleftrightarrow>
     (let x = of_char a :: nat; y = of_char b :: nat; z = of_char c :: nat in
      x = 0xE1 \<and> y = 0x9A \<and> z = 0x80 \<or>
      x = 0xE2 \<and> y = 0x80 \<and> (0x80 \<le> z \<and> z \<le> 0x8A \<or> z \<in> {0xA8, 0xA9, 0xAF}) \<or>
      x = 0xE2 \<and> y = 0x81 \<and> z = 0x9F \<or>
      x = 0xE3 \<and> y = 0x80 \<and> z = 0x80)"

fun space_width :: "string \<Rightarrow> nat" where
  "space_width [] = 0"
| "space_width (a # s) =
     (if ascii_space a then 1
      else (case s of
              [] \<Rightarrow> 0
            | b # s' \<Rightarrow> if space2 a b then 2
                       else (case s' of [] \<Rightarrow> 0 | c # _ \<Rightarrow> if space3 a b c then 3 else 0)))"

text \<open>The width of the white-space code point a string ends with.\<close>

definition space_width_end :: "string \<Rightarrow> nat" where
  "space_width_end s =
     (case rev s of
        [] \<Rightarrow> 0
      | c # s1 \<Rightarrow>
         if ascii_space c then 1
         else (case s1 of
                 [] \<Rightarrow> 0
               | b # s2 \<Rightarrow> if space2 b c then 2
                          else (case s2 of [] \<Rightarrow> 0 | a # _ \<Rightarrow> if space3 a b c then 3 else 0)))"

lemma space_width_le: "space_width s \<le> length s"
  by (induction s rule: space_width.induct) (auto split: list.splits)

lemma space_width_end_le: "space_width_end s \<le> length s"
proof -
  have "space_width_end s \<le> length (rev s)"
    unfolding space_width_end_def by (simp split: list.split)
  then show ?thesis by simp
qed

function TrimLeftSpace :: "string \<Rightarrow> string" where
  "TrimLeftSpace s = (if space_width s = 0 then s else TrimLeftSpace (drop (space_width s) s))"
  by pat_completeness auto
termination
proof (relation "measure length")
  fix s :: string
  assume "space_width s \<noteq> 0"
  with space_width_le [of s] show "(drop (space_width s) s, s) \<in> measure length"
    by simp
qed simp

function TrimRightSpace :: "string \<Rightarrow> string" where
  "TrimRightSpace s =
     (if space_width_end s = 0 then s
      else TrimRightSpace (take (length s - space_width_end s) s))"
  by pat_completeness auto
termination
proof (relation "measure length")
  fix s :: string
  assume "space_width_end s \<noteq> 0"
  with space_width_end_le [of s] show "(take (length s - space_width_end s) s, s) \<in> measure length"
    by simp
qed simp

declare TrimLeftSpace.simps [simp del] TrimRightSpace.simps [simp del]

definition TrimSpace :: "string \<Rightarrow> string" where
  "TrimSpace s = TrimRightSpace (TrimLeftSpace s)"

text \<open>\<open>strings.Fields\<close>: the maximal runs without white space. The second argument is the field
  being read.\<close>

function fields_from :: "string \<Rightarrow> string \<Rightarrow> string list" where
  "fields_from [] cur = (if cur = [] then [] else [cur])"
| "fields_from (c # s) cur =
     (if space_width (c # s) = 0 then fields_from s (cur @ [c])
      else (if cur = [] then [] else [cur]) @ fields_from (drop (space_width (c # s)) (c # s)) [])"
  by pat_completeness auto
termination
proof (relation "measure (\<lambda>(s, cur). length s)")
  fix c s
  assume "space_width (c # s) \<noteq> 0"
  with space_width_le [of "c # s"]
  show "((drop (space_width (c # s)) (c # s), []), c # s, cur) \<in> measure (\<lambda>(s, cur). length s)" for cur :: string
    by (simp del: space_width.simps)
qed simp_all

definition Fields :: "string \<Rightarrow> string list" where
  "Fields s = fields_from s []"

lemma fields_from_not_Nil: "f \<in> set (fields_from s cur) \<Longrightarrow> f \<noteq> []"
proof (induction s cur rule: fields_from.induct)
  case (1 cur)
  then show ?case by (auto split: if_splits)
next
  case (2 c s cur)
  show ?case
  proof (cases "space_width (c # s) = 0")
    case True
    with "2.IH"(1) "2.prems" show ?thesis by (simp del: space_width.simps)
  next
    case False
    with "2.IH"(2) "2.prems" show ?thesis
      by (auto simp del: space_width.simps split: if_splits)
  qed
qed

lemma Fields_not_Nil: "f \<in> set (Fields s) \<Longrightarrow> f \<noteq> []"
  by (simp add: Fields_def fields_from_not_Nil)

section \<open>Words of printable ASCII characters\<close>

definition graph_char :: "char \<Rightarrow> bool" where
  "graph_char c \<longleftrightarrow> 33 \<le> (of_char c :: nat) \<and> (of_char c :: nat) \<le> 126"

definition plain_word :: "string \<Rightarrow> bool" where
  "plain_word w \<longleftrightarrow> w \<noteq> [] \<and> list_all graph_char w"

lemma space_width_graph: "graph_char c \<Longrightarrow> space_width (c # s) = 0"
  by (auto simp: graph_char_def ascii_space_def Let_def split: list.splits)

lemma space_width_blank: "space_width (CHR '' '' # s) = 1"
  by (simp add: ascii_space_def)

lemma graph_not_space: "graph_char c \<Longrightarrow> \<not> ascii_space c \<and> \<not> space2 b c \<and> \<not> space3 a b c"
  by (auto simp: graph_char_def ascii_space_def Let_def)

declare fields_from.simps(2) [simp del]

lemma fields_from_word: "list_all graph_char w \<Longrightarrow> fields_from (w @ s) cur = fields_from s (cur @ w)"
proof (induction w arbitrary: cur)
  case Nil
  then show ?case by simp
next
  case (Cons c w)
  then have "space_width (c # w @ s) = 0" by (simp add: space_width_graph del: space_width.simps)
  with Cons show ?case by (simp add: fields_from.simps(2) del: space_width.simps)
qed

lemma fields_from_blank [simp]:
  "fields_from (CHR '' '' # s) cur = (if cur = [] then [] else [cur]) @ fields_from s []"
  using space_width_blank [of s] by (simp add: fields_from.simps(2) del: space_width.simps)

lemma fields_from_words:
  assumes "list_all plain_word ws"
  shows "fields_from (Join ws '' '' @ s) [] =
    (if ws = [] then fields_from s [] else butlast ws @ fields_from s (last ws))"
  using assms
proof (induction ws "'' ''" rule: Join.induct)
  case 1
  then show ?case by simp
next
  case (2 w)
  then show ?case by (simp add: fields_from_word plain_word_def)
next
  case (3 w v ws)
  then have "fields_from (w @ CHR '' '' # (Join (v # ws) '' '' @ s)) [] = w # fields_from (Join (v # ws) '' '' @ s) []"
    by (subst fields_from_word) (simp_all add: plain_word_def)
  with 3 show ?case by simp
qed

lemma Fields_words:
  assumes "list_all plain_word ws"
  shows "Fields (Join ws '' '' @ '' '') = ws" and "Fields ('' '' @ Join ws '' '') = ws"
proof -
  have last: "ws \<noteq> [] \<Longrightarrow> last ws \<noteq> []" using assms by (auto simp: list_all_iff plain_word_def)
  then have "ws \<noteq> [] \<Longrightarrow> butlast ws @ [last ws] = ws" by simp
  with last show "Fields (Join ws '' '' @ '' '') = ws"
    by (auto simp: Fields_def fields_from_words [OF assms] fields_from_blank)
  show "Fields ('' '' @ Join ws '' '') = ws"
    using last fields_from_words [OF assms, of "[]"] by (auto simp: Fields_def fields_from_blank)
qed

lemma TrimSpace_graph:
  assumes "graph_char a" "graph_char b"
  shows "TrimSpace (a # s @ [b]) = a # s @ [b]"
proof -
  have left: "TrimLeftSpace (a # s @ [b]) = a # s @ [b]"
    using space_width_graph [OF assms(1)] by (simp add: TrimLeftSpace.simps del: space_width.simps)
  have "space_width_end (a # s @ [b]) = 0"
    using graph_not_space [OF assms(2)]
    by (simp add: space_width_end_def del: space2.simps space3.simps split: list.splits)
  then show ?thesis by (simp add: TrimSpace_def left TrimRightSpace.simps)
qed

lemma Index_first:
  assumes "\<not> sublist sub a" "\<not> (\<exists>k. 0 < k \<and> k < length sub \<and> suffix (take k sub) a \<and> prefix (drop k sub) (sub @ b))"
  shows "Index (a @ sub @ b) sub = Some (length a)"
  using assms
proof (induction a)
  case Nil
  then show ?case by (cases sub; cases b) (auto simp: HasPrefix_def)
next
  case (Cons c a)
  have "\<not> HasPrefix (c # a @ sub @ b) sub"
  proof
    assume pre: "HasPrefix (c # a @ sub @ b) sub"
    then have tk: "take (length sub) ((c # a) @ sub @ b) = sub" by (simp add: HasPrefix_def)
    show False
    proof (cases "length sub \<le> length (c # a)")
      case True
      with tk have "prefix sub (c # a)" by (metis append_take_drop_id prefix_def take_append
            take_all_iff append_Nil2 diff_is_0_eq take0)
      with Cons.prems(1) show False by (simp add: prefix_imp_sublist)
    next
      case False
      let ?k = "length (c # a)"
      from False tk have "take ?k sub = c # a"
        by (metis append_eq_conv_conj nle_le take_append take_take min.absorb2 take_all)
      moreover from False tk have "drop ?k sub = take (length sub - ?k) (sub @ b)"
        by (metis drop_take append_eq_conv_conj)
      then have "prefix (drop ?k sub) (sub @ b)" by (metis take_is_prefix)
      ultimately show False using Cons.prems(2) False by (metis length_greater_0_conv list.discI not_le suffix_order.refl)
    qed
  qed
  moreover have "Index (a @ sub @ b) sub = Some (length a)"
  proof (rule Cons.IH)
    show "\<not> sublist sub a" using Cons.prems(1) by (auto simp: sublist_Cons_right)
    show "\<not> (\<exists>k. 0 < k \<and> k < length sub \<and> suffix (take k sub) a \<and> prefix (drop k sub) (sub @ b))"
      using Cons.prems(2) suffix_ConsI by metis
  qed
  ultimately show ?case by simp
qed

lemma Index_arrow: "\<not> sublist ''->'' a \<Longrightarrow> Index (a @ ''->'' @ b) ''->'' = Some (length a)"
proof (rule Index_first)
  show "\<not> (\<exists>k. 0 < k \<and> k < length ''->'' \<and> suffix (take k ''->'') a \<and> prefix (drop k ''->'') (''->'' @ b))"
  proof safe
    fix k assume "0 < k" "k < length ''->''" "prefix (drop k ''->'') (''->'' @ b)"
    then have "k = 1" by simp
    with \<open>prefix (drop k ''->'') (''->'' @ b)\<close> show False by simp
  qed
qed

lemma no_arrow_words:
  assumes "list_all (\<lambda>w. \<not> sublist ''->'' w) ws"
  shows "\<not> sublist ''->'' (Join ws '' '' @ '' '')"
proof -
  have blank: "\<not> sublist ''->'' (xs @ CHR '' '' # ys)" if "\<not> sublist ''->'' xs" "\<not> sublist ''->'' ys" for xs ys
    using that by (auto simp: sublist_append sublist_Cons_right append_eq_Cons_conv Cons_eq_append_conv)
  have nil: "\<not> sublist ''->'' []" by simp
  show ?thesis
    using assms
  proof (induction ws "'' ''" rule: Join.induct)
    case 1
    then show ?case by (simp add: sublist_Cons_right)
  next
    case (2 w)
    with blank [OF _ nil] show ?case by simp
  next
    case (3 w v ws)
    with blank show ?case by simp
  qed
qed

end
