(* ===== verification/GoPath.thy ===== *)
theory GoPath
  imports GoStrings
begin

text \<open>
  Go's \<open>filepath.Match\<close> (on Unix) and the operations of package \<open>path\<close> that razvhost calls.
  \<open>Match\<close> follows the library's algorithm: a pattern is cut into chunks, each possibly
  preceded by a star; a chunk is matched at the current position, or, after a star, at
  the first later position within the path segment where it matches, without backtracking.
  An ill-formed pattern is \<^const>\<open>None\<close> (\<open>ErrBadPattern\<close>).
\<close>

section \<open>filepath.Match\<close>

text \<open>\<open>scanChunk\<close>, first the leading stars and then the scan for the next star outside a class.\<close>

fun skip_stars :: "string \<Rightarrow> bool \<times> string" where
  "skip_stars (c # p) = (if c = CHR ''*'' then (True, snd (skip_stars p)) else (False, c # p))"
| "skip_stars [] = (False, [])"

fun scan_chunk :: "bool \<Rightarrow> string \<Rightarrow> string \<times> string" where
  "scan_chunk inrange [] = ([], [])"
| "scan_chunk inrange (c # p) =
     (if c = CHR 0x5C then
        (case p of
           [] \<Rightarrow> ([c], [])
         | d # p' \<Rightarrow> (let (ch, rest) = scan_chunk inrange p' in (c # d # ch, rest)))
      else if c = CHR ''*'' \<and> \<not> inrange then ([], c # p)
      else (let inrange' = (if c = CHR ''['' then True else if c = CHR '']'' then False else inrange);
                (ch, rest) = scan_chunk inrange' p
            in (c # ch, rest)))"

definition scanChunk :: "string \<Rightarrow> bool \<times> string \<times> string" where
  "scanChunk p = (let (star, p') = skip_stars p; (chunk, rest) = scan_chunk False p' in (star, chunk, rest))"

text \<open>\<open>getEsc\<close>: a possibly escaped code point of a class and the rest, which is never empty.\<close>

definition getEsc :: "string \<Rightarrow> (nat \<times> string) option" where
  "getEsc chunk =
     (case chunk of
        [] \<Rightarrow> None
      | c # cs \<Rightarrow>
         if c = CHR ''-'' \<or> c = CHR '']'' then None
         else
           (let chunk' = (if c = CHR 0x5C then cs else chunk) in
            if chunk' = [] then None
            else (let (r, n) = DecodeRune chunk' in
                  if r = RuneError \<and> n = 1 \<or> drop n chunk' = [] then None
                  else Some (r, drop n chunk'))))"

lemma getEsc_shrinks: "getEsc chunk = Some (r, rest) \<Longrightarrow> rest \<noteq> [] \<and> length rest < length chunk"
proof -
  assume a: "getEsc chunk = Some (r, rest)"
  then obtain c cs where chunk: "chunk = c # cs" by (auto simp: getEsc_def split: list.splits)
  define chunk' where "chunk' = (if c = CHR 0x5C then cs else chunk)"
  with a chunk have ne: "chunk' \<noteq> []" and rest: "rest = drop (snd (DecodeRune chunk')) chunk'" "rest \<noteq> []"
    by (auto simp: getEsc_def Let_def split: if_splits prod.splits)
  have "length chunk' \<le> length chunk" by (simp add: chunk'_def chunk)
  with rest DecodeRune_width [OF ne] show ?thesis by auto
qed

text \<open>The loop over the ranges of a class; \<open>first\<close> is \<open>nrange = 0\<close>.\<close>

function class_ranges :: "nat \<Rightarrow> bool \<Rightarrow> bool \<Rightarrow> string \<Rightarrow> (bool \<times> string) option" where
  "class_ranges r first mtch chunk =
     (if chunk \<noteq> [] \<and> hd chunk = CHR '']'' \<and> \<not> first then Some (mtch, tl chunk)
      else (case getEsc chunk of
              None \<Rightarrow> None
            | Some (lo, c1) \<Rightarrow>
               (if hd c1 = CHR ''-'' then
                  (case getEsc (tl c1) of
                     None \<Rightarrow> None
                   | Some (hi, c2) \<Rightarrow> class_ranges r False (mtch \<or> lo \<le> r \<and> r \<le> hi) c2)
                else class_ranges r False (mtch \<or> lo \<le> r \<and> r \<le> lo) c1)))"
  by pat_completeness auto
termination
proof (relation "measure (\<lambda>(r, first, mtch, chunk). length chunk)", goal_cases)
  case 1
  show ?case by simp
next
  case (2 r first mtch chunk x lo c1 y hi c2)
  then show ?case using getEsc_shrinks [of chunk lo c1] getEsc_shrinks [of "tl c1" hi c2] by auto
next
  case (3 r first mtch chunk x lo c1)
  then show ?case using getEsc_shrinks [of chunk lo c1] by auto
qed

declare class_ranges.simps [simp del]

lemma class_ranges_shrinks: "class_ranges r first mtch chunk = Some (m, rest) \<Longrightarrow> length rest < length chunk"
proof (induction r first mtch chunk rule: class_ranges.induct)
  case (1 r first mtch chunk)
  show ?case
  proof (cases "chunk \<noteq> [] \<and> hd chunk = CHR '']'' \<and> \<not> first")
    case True
    with "1.prems" show ?thesis
      by (subst (asm) class_ranges.simps) auto
  next
    case stop: False
    with "1.prems" obtain lo c1 where esc: "getEsc chunk = Some (lo, c1)"
      by (subst (asm) class_ranges.simps) (auto split: option.splits if_splits)
    note c1 = getEsc_shrinks [OF esc]
    show ?thesis
    proof (cases "hd c1 = CHR ''-''")
      case True
      with "1.prems" stop esc obtain hi c2 where esc2: "getEsc (tl c1) = Some (hi, c2)"
        and rec: "class_ranges r False (mtch \<or> lo \<le> r \<and> r \<le> hi) c2 = Some (m, rest)"
        by (subst (asm) class_ranges.simps) (auto split: option.splits if_splits)
      have "length rest < length c2"
        using "1.IH"(1) [OF stop esc refl True esc2 refl rec] .
      with getEsc_shrinks [OF esc2] c1 show ?thesis by auto
    next
      case False
      with "1.prems" stop esc
      have rec: "class_ranges r False (mtch \<or> lo \<le> r \<and> r \<le> lo) c1 = Some (m, rest)"
        by (subst (asm) class_ranges.simps) (auto split: option.splits if_splits)
      have "length rest < length c1"
        using "1.IH"(2) [OF stop esc refl False rec] .
      with c1 show ?thesis by simp
    qed
  qed
qed

text \<open>\<open>matchChunk\<close>: the result of the well-formed case is \<open>Some (Some rest)\<close> on a match and
  \<open>Some None\<close> otherwise. Once the match has failed the loop only checks the pattern.\<close>

function match_chunk :: "bool \<Rightarrow> string \<Rightarrow> string \<Rightarrow> string option option" where
  "match_chunk failed chunk s =
     (case chunk of
        [] \<Rightarrow> Some (if failed then None else Some s)
      | c # cs \<Rightarrow>
         (let failed1 = (failed \<or> s = []) in
          if c = CHR ''['' then
            (let (r, n) = (if failed1 then (0, 0) else DecodeRune s);
                 s' = drop n s;
                 negated = (cs \<noteq> [] \<and> hd cs = CHR 0x5E);
                 cs' = (if negated then tl cs else cs)
             in (case class_ranges r True False cs' of
                   None \<Rightarrow> None
                 | Some (m, rest) \<Rightarrow> match_chunk (failed1 \<or> m = negated) rest s'))
          else if c = CHR ''?'' then
            (if failed1 then match_chunk True cs s
             else match_chunk (hd s = CHR ''/'') cs (drop (snd (DecodeRune s)) s))
          else if c = CHR 0x5C then
            (case cs of
               [] \<Rightarrow> None
             | d # ds \<Rightarrow>
                 if failed1 then match_chunk True ds s else match_chunk (d \<noteq> hd s) ds (tl s))
          else if failed1 then match_chunk True cs s
          else match_chunk (c \<noteq> hd s) cs (tl s)))"
  by pat_completeness auto
termination
proof (relation "measure (\<lambda>(failed, chunk, s). length chunk)", goal_cases)
  case 1
  show ?case by simp
next
  case (2 failed chunk s c cs failed1 p r n s' negated cs' x m rest)
  then have "length rest < length cs'" using class_ranges_shrinks by blast
  moreover have "length cs' \<le> length cs" using 2 by simp
  ultimately show ?case using 2 by simp
qed auto

declare match_chunk.simps [simp del]

definition matchChunk :: "string \<Rightarrow> string \<Rightarrow> string option option" where
  "matchChunk chunk s = match_chunk False chunk s"

text \<open>The loop after a star: try to match the chunk after skipping one more byte, never
  a separator. The last chunk must exhaust the name.\<close>

fun star_loop :: "string \<Rightarrow> bool \<Rightarrow> string \<Rightarrow> string option option" where
  "star_loop chunk final [] = Some None"
| "star_loop chunk final (c # name) =
     (if c = CHR ''/'' then Some None
      else (case matchChunk chunk name of
              None \<Rightarrow> None
            | Some (Some t) \<Rightarrow> if final \<and> t \<noteq> [] then star_loop chunk final name else Some (Some t)
            | Some None \<Rightarrow> star_loop chunk final name))"

lemma skip_stars_length: "length (snd (skip_stars p)) \<le> length p"
  by (induction p rule: skip_stars.induct) auto

lemma skip_stars_False: "fst (skip_stars p) = False \<Longrightarrow> snd (skip_stars p) = p"
  by (cases p) (auto split: if_splits)

lemma skip_stars_True: "fst (skip_stars p) \<Longrightarrow> length (snd (skip_stars p)) < length p"
  using skip_stars_length by (cases p) (auto split: if_splits simp: le_imp_less_Suc)

lemma skip_stars_hd: "snd (skip_stars p) = c # q \<Longrightarrow> c \<noteq> CHR ''*''"
  by (induction p rule: skip_stars.induct) (auto split: if_splits)

lemma scan_chunk_length: "length (snd (scan_chunk b p)) \<le> length p"
proof (induction b p rule: scan_chunk.induct)
  case (1 b)
  then show ?case by simp
next
  case (2 b c p)
  show ?case
  proof (cases "c = CHR 0x5C")
    case True
    with "2.IH"(1) show ?thesis by (cases p) (auto simp: split_beta)
  next
    case False
    show ?thesis
    proof (cases "c = CHR ''*'' \<and> \<not> b")
      case True
      with False show ?thesis by simp
    next
      case nostar: False
      with False "2.IH"(2) [OF False nostar refl] show ?thesis
        by (auto simp: split_beta split: if_splits)
    qed
  qed
qed

lemma scan_chunk_shrinks:
  assumes "c \<noteq> CHR ''*''"
  shows "length (snd (scan_chunk False (c # p))) < length (c # p)"
proof (cases "c = CHR 0x5C")
  case True
  then show ?thesis
    using scan_chunk_length [of False "tl p"] by (cases p) (auto simp: split_beta)
next
  case False
  with assms show ?thesis
    using scan_chunk_length [of _ p] by (simp add: split_beta le_imp_less_Suc)
qed

lemma scanChunk_shrinks:
  assumes "p \<noteq> []" "scanChunk p = (star, chunk, rest)"
  shows "length rest < length p"
proof -
  obtain q where q: "skip_stars p = (star, q)" "scan_chunk False q = (chunk, rest)"
    using assms by (auto simp: scanChunk_def Let_def split: prod.splits)
  show ?thesis
  proof (cases q)
    case Nil
    with q assms(1) show ?thesis by auto
  next
    case (Cons c q')
    then have "length rest < length q"
      using scan_chunk_shrinks [of c q'] skip_stars_hd [of p c q'] q by simp
    with skip_stars_length [of p] q show ?thesis by simp
  qed
qed

function Match :: "string \<Rightarrow> string \<Rightarrow> bool option" where
  "Match pattern name =
     (if pattern = [] then Some (name = [])
      else
        (case scanChunk pattern of (star, chunk, rest) \<Rightarrow>
           if star \<and> chunk = [] then Some (CHR ''/'' \<notin> set name)
           else
             (case matchChunk chunk name of
                None \<Rightarrow> None
              | Some (Some t) \<Rightarrow>
                  if t = [] \<or> rest \<noteq> [] then Match rest t
                  else if star then
                    (case star_loop chunk (rest = []) name of
                       None \<Rightarrow> None
                     | Some (Some t) \<Rightarrow> Match rest t
                     | Some None \<Rightarrow> Some False)
                  else Some False
              | Some None \<Rightarrow>
                  if star then
                    (case star_loop chunk (rest = []) name of
                       None \<Rightarrow> None
                     | Some (Some t) \<Rightarrow> Match rest t
                     | Some None \<Rightarrow> Some False)
                  else Some False)))"
  by pat_completeness auto
termination
  by (relation "measure (\<lambda>(pattern, name). length pattern)") (auto dest: scanChunk_shrinks [OF _ sym])

declare Match.simps [simp del]

section \<open>Package path\<close>

text \<open>\<open>path.Clean\<close> by path segments: empty and \<open>.\<close> segments vanish, \<open>..\<close> removes the segment
  before it, a leading \<open>..\<close> is kept in a relative path and dropped in a rooted one. The
  stack holds the output segments in reverse.\<close>

fun clean_segs :: "bool \<Rightarrow> string list \<Rightarrow> string list \<Rightarrow> string list" where
  "clean_segs rooted [] out = rev out"
| "clean_segs rooted (seg # segs) out =
     (if seg = [] \<or> seg = ''.'' then clean_segs rooted segs out
      else if seg = ''..'' then
        (case out of
           [] \<Rightarrow> clean_segs rooted segs (if rooted then [] else [seg])
         | o1 # os \<Rightarrow> clean_segs rooted segs (if o1 = ''..'' then seg # out else os))
      else clean_segs rooted segs (seg # out))"

definition rooted :: "string \<Rightarrow> bool" where
  "rooted p \<longleftrightarrow> HasPrefix p ''/''"

definition Clean :: "string \<Rightarrow> string" where
  "Clean p =
     (let segs = clean_segs (rooted p) (Split p CHR ''/'') [] in
      if rooted p then CHR ''/'' # Join segs ''/''
      else if segs = [] then ''.'' else Join segs ''/'')"

definition path_Join :: "string list \<Rightarrow> string" where
  "path_Join elems =
     (let es = filter (\<lambda>e. e \<noteq> []) elems in if es = [] then [] else Clean (Join es ''/''))"

text \<open>\<open>path.Dir\<close>: everything up to the last slash, cleaned.\<close>

definition Dir :: "string \<Rightarrow> string" where
  "Dir p = Clean (rev (dropWhile (\<lambda>c. c \<noteq> CHR ''/'') (rev p)))"

definition plain_seg :: "string \<Rightarrow> bool" where
  "plain_seg seg \<longleftrightarrow> seg \<noteq> [] \<and> seg \<noteq> ''.'' \<and> seg \<noteq> ''..'' \<and> CHR ''/'' \<notin> set seg"

lemma clean_segs_rooted:
  assumes "\<forall>s \<in> set segs. CHR ''/'' \<notin> set s" "\<forall>s \<in> set out. plain_seg s"
  shows "\<forall>s \<in> set (clean_segs True segs out). plain_seg s"
  using assms
proof (induction segs arbitrary: out)
  case Nil
  then show ?case by simp
next
  case (Cons seg segs)
  then have tl: "\<forall>s \<in> set segs. CHR ''/'' \<notin> set s" by simp
  consider "seg = [] \<or> seg = ''.''" | "seg = ''..''" | "plain_seg seg"
    using Cons.prems(1) by (auto simp: plain_seg_def)
  then show ?case
  proof cases
    case 1
    with Cons.IH [OF tl Cons.prems(2)] show ?thesis by auto
  next
    case 2
    then have "clean_segs True (seg # segs) out = clean_segs True segs (tl out)"
      using Cons.prems(2) by (cases out) (auto simp: plain_seg_def)
    moreover have "\<forall>s \<in> set (tl out). plain_seg s"
      using Cons.prems(2) by (cases out) auto
    ultimately show ?thesis using Cons.IH [OF tl] by simp
  next
    case 3
    then have eq: "clean_segs True (seg # segs) out = clean_segs True segs (seg # out)"
      by (simp add: plain_seg_def)
    have "\<forall>s \<in> set (seg # out). plain_seg s"
      using Cons.prems(2) 3 by simp
    then show ?thesis unfolding eq by (rule Cons.IH [OF tl])
  qed
qed

text \<open>A cleaned rooted path is \<open>/\<close> or a slash and plain segments: no \<open>..\<close> is left in it.\<close>

lemma Clean_rooted:
  assumes "rooted p"
  obtains segs where "Clean p = CHR ''/'' # Join segs ''/''" "\<forall>s \<in> set segs. plain_seg s"
proof -
  have "\<forall>s \<in> set (clean_segs True (Split p CHR ''/'') []). plain_seg s"
    by (rule clean_segs_rooted) (auto dest: Split_parts_no_sep)
  with assms that show thesis by (simp add: Clean_def Let_def)
qed

lemma clean_segs_plain:
  assumes "\<forall>s \<in> set segs. plain_seg s"
  shows "clean_segs r segs out = rev out @ segs"
  using assms
proof (induction segs arbitrary: out)
  case Nil
  then show ?case by simp
next
  case (Cons s segs)
  then show ?case by (simp add: plain_seg_def)
qed

lemma Split_Join:
  assumes "segs \<noteq> []" "\<forall>s \<in> set segs. sep \<notin> set s"
  shows "Split (Join segs [sep]) sep = segs"
  using assms
proof (induction segs "[sep]" rule: Join.induct)
  case (3 p q ps)
  then show ?case by (simp add: Split_append_sep)
qed (simp_all add: Split_no_sep)

lemma Clean_plain:
  assumes "\<forall>s \<in> set segs. plain_seg s"
  shows "Clean (CHR ''/'' # Join segs ''/'') = CHR ''/'' # Join segs ''/''"
proof (cases "segs = []")
  case True
  then show ?thesis by (simp add: Clean_def rooted_def)
next
  case False
  with assms have "Split (Join segs ''/'') CHR ''/'' = segs"
    by (intro Split_Join) (auto simp: plain_seg_def)
  with assms show ?thesis by (simp add: Clean_def rooted_def clean_segs_plain)
qed

lemma Clean_idem_rooted: "rooted p \<Longrightarrow> Clean (Clean p) = Clean p"
  by (metis Clean_rooted Clean_plain)

lemma Join_append:
  assumes "xs \<noteq> []" "ys \<noteq> []"
  shows "Join (xs @ ys) sep = Join xs sep @ sep @ Join ys sep"
  using assms by (induction xs sep rule: Join.induct) (auto simp: Join_Cons)

lemma Join_plain_not_Nil: "segs \<noteq> [] \<Longrightarrow> \<forall>s \<in> set segs. plain_seg s \<Longrightarrow> Join segs ''/'' \<noteq> []"
  by (cases segs; cases "tl segs") (auto simp: plain_seg_def)

text \<open>Joining a cleaned rooted path to a cleaned absolute root other than \<open>/\<close> only appends to
  the root.\<close>

lemma path_Join_rooted:
  assumes "\<forall>s \<in> set rs. plain_seg s" "rs \<noteq> []" "\<forall>s \<in> set us. plain_seg s"
  shows "path_Join [CHR ''/'' # Join rs ''/'', CHR ''/'' # Join us ''/''] =
    CHR ''/'' # Join (rs @ us) ''/''"
proof -
  have sl: "''/'' = [CHR ''/'']" by simp
  have rs: "Split (Join rs ''/'') CHR ''/'' = rs"
    using assms by (intro Split_Join) (auto simp: plain_seg_def)
  have us: "Split (Join us ''/'') CHR ''/'' = (if us = [] then [[]] else us)"
    using assms Split_Join [of us "CHR ''/''"] by (auto simp: plain_seg_def)
  have app: "Split (Join rs ''/'' @ t) CHR ''/'' = butlast rs @ (last rs @ hd (Split t CHR ''/'')) # tl (Split t CHR ''/'')" for t
    using assms(2) assms(1)
  proof (induction rs "''/''" rule: Join.induct)
    case (2 p)
    then have "CHR ''/'' \<notin> set p" by (simp add: plain_seg_def)
    then show ?case
    proof (induction p)
      case Nil
      then show ?case by (cases "Split t CHR ''/''") simp_all
    next
      case (Cons c p)
      then show ?case by auto
    qed
  next
    case (3 p q ps)
    then show ?case by (simp add: Split_append_sep plain_seg_def)
  qed simp
  have "Split (Join rs ''/'' @ ''//'' @ Join us ''/'') CHR ''/'' = rs @ [] # Split (Join us ''/'') CHR ''/''"
    using assms(2) by (simp add: app)
  moreover have "clean_segs True (xs @ ys) zs = clean_segs True ys (rev xs @ zs)"
    if "\<forall>s \<in> set xs. plain_seg s" for xs ys zs
    using that by (induction xs arbitrary: zs) (simp_all add: plain_seg_def)
  ultimately show ?thesis
    using assms us by (simp add: path_Join_def Clean_def rooted_def clean_segs_plain)
qed

lemma Clean_plain_slash:
  assumes "segs \<noteq> []" "\<forall>s \<in> set segs. plain_seg s"
  shows "Clean (CHR ''/'' # Join segs ''/'' @ ''/'') = CHR ''/'' # Join segs ''/''"
proof -
  have "Split (Join (segs @ [[]]) ''/'') CHR ''/'' = segs @ [[]]"
    using assms by (intro Split_Join) (auto simp: plain_seg_def)
  then have "Split (Join segs ''/'' @ ''/'') CHR ''/'' = segs @ [[]]"
    using assms(1) by (simp add: Join_append)
  moreover have "clean_segs True (segs @ [[]]) out = rev out @ segs" for out
    using assms(2) by (induction segs arbitrary: out) (auto simp: plain_seg_def)
  ultimately show ?thesis using assms by (simp add: Clean_def rooted_def)
qed

lemma last_Join_plain:
  assumes "segs \<noteq> []" "\<forall>s \<in> set segs. plain_seg s"
  shows "last (Join segs ''/'') \<noteq> CHR ''/''"
  using assms
proof (induction segs rule: rev_induct)
  case (snoc s ss)
  then have s: "s \<noteq> []" "CHR ''/'' \<notin> set s" by (simp_all add: plain_seg_def)
  then have "last s \<noteq> CHR ''/''" using last_in_set [of s] by metis
  with s show ?case by (cases "ss = []") (simp_all add: Join_append)
qed simp

end
