(* ===== verification/RoutingTable.thy ===== *)
theory RoutingTable
  imports Prelude
begin

text \<open>
  The contract between the server and its router: a table that maps a path to the multiset
  of target ids registered for it. The server only adds a handler under a path and an
  id and removes by path and id; everything it needs to know of the router's content
  follows from the two laws of the locale \<open>routing_table\<close>, proved once here and obtained for
  the modelled router by interpretation. The second part is about the laws' own algebra:
  operations on different (path, id) pairs commute, so the content after an interleaving
  of two event streams does not depend on the interleaving.
\<close>

type_synonym targets = "string \<Rightarrow> string multiset"

datatype 'h route_op = RouteUp string 'h string | RouteDown string string

fun op_key :: "'h route_op \<Rightarrow> string \<times> string" where
  "op_key (RouteUp p h i) = (p, i)"
| "op_key (RouteDown p i) = (p, i)"

fun targets_op :: "'h route_op \<Rightarrow> targets \<Rightarrow> targets" where
  "targets_op (RouteUp p h i) t = t(p := add_mset i (t p))"
| "targets_op (RouteDown p i) t = t(p := t p - {#i#})"

section \<open>The interface\<close>

locale routing_table =
  fixes invar :: "'m \<Rightarrow> bool"
    and targets :: "'m \<Rightarrow> string \<Rightarrow> string multiset"
    and add :: "'m \<Rightarrow> string \<Rightarrow> 'h \<Rightarrow> string \<Rightarrow> 'm"
    and remove :: "'m \<Rightarrow> string \<Rightarrow> string \<Rightarrow> 'm"
  assumes invar_add: "invar m \<Longrightarrow> invar (add m p h i)"
    and invar_remove: "invar m \<Longrightarrow> invar (remove m p i)"
    and targets_add: "invar m \<Longrightarrow> targets (add m p h i) = (targets m)(p := add_mset i (targets m p))"
    and targets_remove: "invar m \<Longrightarrow> targets (remove m p i) = (targets m)(p := targets m p - {#i#})"
begin

lemmas laws = invar_add invar_remove targets_add targets_remove

fun apply_op :: "'h route_op \<Rightarrow> 'm \<Rightarrow> 'm" where
  "apply_op (RouteUp p h i) m = add m p h i"
| "apply_op (RouteDown p i) m = remove m p i"

lemma apply_op_refines:
  "invar m \<Longrightarrow> invar (apply_op x m) \<and> targets (apply_op x m) = targets_op x (targets m)"
  by (cases x) (simp_all add: laws)

lemma apply_ops_refine:
  "invar m \<Longrightarrow> invar (fold apply_op xs m) \<and> targets (fold apply_op xs m) = fold targets_op xs (targets m)"
proof (induction xs arbitrary: m)
  case Nil
  then show ?case by simp
next
  case (Cons x xs)
  from apply_op_refines [OF Cons.prems, of x] show ?case
    using Cons.IH [of "apply_op x m"] by simp
qed

lemma add_then_remove: "invar m \<Longrightarrow> targets (remove (add m p h i) p i) = targets m"
  by (simp add: laws)

end

section \<open>Counting registrations\<close>

text \<open>How often an id is registered after a sequence of operations, when all removals in
  it find something to remove: the balance of additions and removals.\<close>

definition ups :: "'h route_op list \<Rightarrow> string \<times> string \<Rightarrow> nat" where
  "ups xs k = length (filter (\<lambda>x. op_key x = k \<and> (\<exists>p h i. x = RouteUp p h i)) xs)"

definition downs :: "'h route_op list \<Rightarrow> string \<times> string \<Rightarrow> nat" where
  "downs xs k = length (filter (\<lambda>x. op_key x = k \<and> (\<exists>p i. x = RouteDown p i)) xs)"

lemma ups_downs_simps [simp]:
  "ups [] k = 0" "downs [] k = 0"
  "ups (RouteUp p h i # xs) k = (if k = (p, i) then 1 else 0) + ups xs k"
  "ups (RouteDown p i # xs) k = ups xs k"
  "downs (RouteUp p h i # xs) k = downs xs k"
  "downs (RouteDown p i # xs) k = (if k = (p, i) then 1 else 0) + downs xs k"
  by (auto simp: ups_def downs_def)

lemma ups_downs_append [simp]:
  "ups (xs @ ys) k = ups xs k + ups ys k" "downs (xs @ ys) k = downs xs k + downs ys k"
  by (auto simp: ups_def downs_def)

lemma count_targets_op:
  "count (targets_op (RouteUp p h i) t q) j = (if (q, j) = (p, i) then 1 else 0) + count (t q) j"
  "count (targets_op (RouteDown p i) t q) j = count (t q) j - (if (q, j) = (p, i) then 1 else 0)"
  by auto

text \<open>All additions first, as the server receives a configuration change.\<close>

lemma count_ups:
  "list_all (\<lambda>x. \<exists>p h i. x = RouteUp p h i) xs \<Longrightarrow>
   count (fold targets_op xs t q) j = count (t q) j + ups xs (q, j)"
proof (induction xs arbitrary: t)
  case Nil
  then show ?case by simp
next
  case (Cons x xs)
  then show ?case by auto
qed

lemma count_downs:
  "list_all (\<lambda>x. \<exists>p i. x = RouteDown p i) xs \<Longrightarrow>
   count (fold targets_op xs t q) j = count (t q) j - downs xs (q, j)"
proof (induction xs arbitrary: t)
  case Nil
  then show ?case by simp
next
  case (Cons x xs)
  then show ?case by auto
qed

section \<open>Interleavings\<close>

lemma targets_op_commute:
  assumes "op_key x \<noteq> op_key y"
  shows "targets_op x (targets_op y t) = targets_op y (targets_op x t)"
  using assms by (cases x; cases y) (auto simp: fun_eq_iff multiset_eq_iff)

lemma targets_op_fold_commute:
  assumes "\<forall>y \<in> set ys. op_key x \<noteq> op_key y"
  shows "targets_op x (fold targets_op ys t) = fold targets_op ys (targets_op x t)"
  using assms by (induction ys arbitrary: t) (auto simp: targets_op_commute)

lemma fold_targets_shuffle:
  assumes "zs \<in> shuffles xs ys" "\<forall>x \<in> set xs. \<forall>y \<in> set ys. op_key x \<noteq> op_key y"
  shows "fold targets_op zs t = fold targets_op ys (fold targets_op xs t)"
  using assms
proof (induction zs arbitrary: xs ys t)
  case Nil
  then show ?case by auto
next
  case (Cons z zs)
  then consider
      (left) xs' where "xs = z # xs'" "zs \<in> shuffles xs' ys"
    | (right) ys' where "ys = z # ys'" "zs \<in> shuffles xs ys'"
    by (auto simp: Cons_in_shuffles_iff neq_Nil_conv)
  then show ?case
  proof cases
    case left
    with Cons.IH [of xs' ys] Cons.prems(2) show ?thesis by simp
  next
    case right
    then have ne: "\<forall>x \<in> set xs. op_key z \<noteq> op_key x"
      using Cons.prems(2) by fastforce
    from right Cons.IH [of xs ys' "targets_op z t"] Cons.prems(2) show ?thesis
      by (simp add: targets_op_fold_commute [OF ne])
  qed
qed

text \<open>The count of a pair only depends on the operations on that pair.\<close>

lemma count_fold_cong:
  "count (t q) j = count (t' q) j \<Longrightarrow> count (fold targets_op xs t q) j = count (fold targets_op xs t' q) j"
proof (induction xs arbitrary: t t')
  case Nil
  then show ?case by simp
next
  case (Cons x xs)
  have "count (targets_op x t q) j = count (targets_op x t' q) j"
    by (cases x) (simp_all only: count_targets_op Cons.prems)
  from Cons.IH [of "targets_op x t" "targets_op x t'", OF this] show ?case by simp
qed

lemma count_fold_other:
  "\<forall>x \<in> set xs. op_key x \<noteq> (q, j) \<Longrightarrow> count (fold targets_op xs t q) j = count (t q) j"
proof (induction xs arbitrary: t)
  case Nil
  then show ?case by simp
next
  case (Cons x xs)
  then show ?case by (cases x) auto
qed

text \<open>An interleaving of two sequences whose elements are expanded is an interleaving of the expansions.\<close>

lemma shuffles_append_left: "ys \<in> shuffles xs zs \<Longrightarrow> us @ ys \<in> shuffles (us @ xs) zs"
  by (induction us) (auto intro: Cons_in_shuffles_leftI)

lemma shuffles_append_right: "ys \<in> shuffles xs zs \<Longrightarrow> us @ ys \<in> shuffles xs (us @ zs)"
  by (induction us) (auto intro: Cons_in_shuffles_rightI)

lemma shuffles_concat_map:
  "zs \<in> shuffles xs ys \<Longrightarrow> concat (map f zs) \<in> shuffles (concat (map f xs)) (concat (map f ys))"
proof (induction zs arbitrary: xs ys)
  case Nil
  then show ?case by simp
next
  case (Cons z zs)
  then consider
      (left) xs' where "xs = z # xs'" "zs \<in> shuffles xs' ys"
    | (right) ys' where "ys = z # ys'" "zs \<in> shuffles xs ys'"
    by (auto simp: Cons_in_shuffles_iff neq_Nil_conv)
  then show ?case
  proof cases
    case left
    with Cons.IH [of xs' ys] show ?thesis by (simp add: shuffles_append_left)
  next
    case right
    with Cons.IH [of xs ys'] show ?thesis by (simp add: shuffles_append_right)
  qed
qed

end
