(* ===== verification/Mux.thy ===== *)
theory Mux
  imports GoPath RoutingTable
begin

text \<open>
  The request router, \<open>src/pkg/mux/mux.go\<close>. Entries are heap objects: the slice \<open>entries\<close> and the
  map \<open>entryMap\<close> hold pointers to the same \<open>muxEntry\<close> values, so the model keeps an explicit heap
  (\<open>m_heap\<close>, addressed by allocation number) and both structures hold addresses. The nil map of
  the zero value and an empty map read alike and \<open>Add\<close> creates the map before its only write,
  so both are the empty map here. Every operation runs under the router's lock; the
  counters are atomic. An \<open>http.Handler\<close> is an opaque value of type \<open>'h\<close>, its nil interface
  is \<^const>\<open>None\<close>.
\<close>

section \<open>Data\<close>

record 'h muxHandler =
  mh_handler :: "'h option"
  mh_id :: string

record 'h muxEntry =
  e_path :: string
  e_handlers :: "'h muxHandler list"
  e_next :: "32 word"
  e_wildcard :: bool
  e_parts :: "string list"

record 'h Mux =
  m_entries :: "nat list"
  m_entryMap :: "string \<rightharpoonup> nat"
  m_heap :: "'h muxEntry list"

definition Mux_zero :: "'h Mux" where
  "Mux_zero = \<lparr>m_entries = [], m_entryMap = Map.empty, m_heap = []\<rparr>"

abbreviation deref :: "'h Mux \<Rightarrow> nat \<Rightarrow> 'h muxEntry" where
  "deref m a \<equiv> m_heap m ! a"

abbreviation store :: "'h Mux \<Rightarrow> nat \<Rightarrow> 'h muxEntry \<Rightarrow> 'h Mux" where
  "store m a e \<equiv> m\<lparr>m_heap := (m_heap m)[a := e]\<rparr>"

section \<open>Operations of an entry\<close>

definition muxEntry_match :: "'h muxEntry \<Rightarrow> string \<Rightarrow> bool" where
  "muxEntry_match e path =
     (if \<not> e_wildcard e then
        (if length path < length (e_path e) then False else HasPrefix path (e_path e))
      else
        (let ps = Split path CHR ''/'' in
         if length ps < length (e_parts e) then False
         else
           (case Match (e_path e) (Join (take (length (e_parts e)) ps) ''/'') of
              Some b \<Rightarrow> b
            | None \<Rightarrow> False)))"

definition muxEntry_matchHost :: "'h muxEntry \<Rightarrow> string \<Rightarrow> bool outcome" where
  "muxEntry_matchHost e host =
     (case e_parts e of
        [] \<Rightarrow> Panic
      | part # _ \<Rightarrow>
          Ret (if \<not> e_wildcard e then part = host
               else (case Match part host of Some b \<Rightarrow> b | None \<Rightarrow> False)))"

definition muxEntry_add :: "'h muxEntry \<Rightarrow> 'h option \<Rightarrow> string \<Rightarrow> 'h muxEntry" where
  "muxEntry_add e h i = e\<lparr>e_handlers := e_handlers e @ [\<lparr>mh_handler = h, mh_id = i\<rparr>]\<rparr>"

definition muxEntry_remove :: "'h muxEntry \<Rightarrow> string \<Rightarrow> 'h muxEntry" where
  "muxEntry_remove e i = e\<lparr>e_handlers := remove_first (\<lambda>x. mh_id x = i) (e_handlers e)\<rparr>"

definition muxEntry_handler :: "'h muxEntry \<Rightarrow> ('h option \<times> 'h muxEntry) outcome" where
  "muxEntry_handler e =
     (let handlersCount = word_of_nat (length (e_handlers e)) :: 32 word in
      if handlersCount = 0 then Ret (None, e)
      else
        (let e' = e\<lparr>e_next := e_next e + 1\<rparr>;
             next = unat (e_next e' mod handlersCount)
         in if next < length (e_handlers e')
            then Ret (mh_handler (e_handlers e' ! next), e') else Panic))"

section \<open>Operations of the router\<close>

definition newEntry :: "string \<Rightarrow> 'h muxEntry" where
  "newEntry path =
     \<lparr>e_path = path, e_handlers = [], e_next = 0,
      e_wildcard = ContainsAny path ''*?[]'', e_parts = Split path CHR ''/''\<rparr>"

text \<open>The loop of \<open>Add\<close> that looks for the position of a new entry; \<open>i\<close> is the loop's index.\<close>

fun insertPos :: "'h Mux \<Rightarrow> 'h muxEntry \<Rightarrow> nat \<Rightarrow> nat list \<Rightarrow> nat option" where
  "insertPos m entry i [] = None"
| "insertPos m entry i (a # as) =
     (if e_wildcard entry \<and> \<not> e_wildcard (deref m a) then insertPos m entry (i + 1) as
      else if length (e_path entry) > length (e_path (deref m a)) then Some i
      else insertPos m entry (i + 1) as)"

definition Mux_Add :: "'h Mux \<Rightarrow> string \<Rightarrow> 'h option \<Rightarrow> string \<Rightarrow> 'h Mux" where
  "Mux_Add m path h i =
     (case m_entryMap m path of
        Some a \<Rightarrow> store m a (muxEntry_add (deref m a) h i)
      | None \<Rightarrow>
         (let entry = muxEntry_add (newEntry path) h i;
              a = length (m_heap m);
              m1 = m\<lparr>m_heap := m_heap m @ [entry], m_entryMap := (m_entryMap m)(path \<mapsto> a)\<rparr>;
              es = m_entries m
          in (case insertPos m1 entry 0 es of
                Some k \<Rightarrow> m1\<lparr>m_entries := (take (k + 1) es @ drop k es)[k := a]\<rparr>
              | None \<Rightarrow> m1\<lparr>m_entries := es @ [a]\<rparr>)))"

definition Mux_Remove :: "'h Mux \<Rightarrow> string \<Rightarrow> string \<Rightarrow> 'h Mux" where
  "Mux_Remove m path i =
     (case m_entryMap m path of
        None \<Rightarrow> m
      | Some a \<Rightarrow>
         (let entry = muxEntry_remove (deref m a) i;
              m1 = store m a entry
          in if length (e_handlers entry) = 0
             then m1\<lparr>m_entryMap := (m_entryMap m1)(path := None)\<rparr> else m1))"

fun Mux_Contains_loop :: "'h Mux \<Rightarrow> string \<Rightarrow> nat list \<Rightarrow> bool outcome" where
  "Mux_Contains_loop m path [] = Ret False"
| "Mux_Contains_loop m path (a # as) =
     (if muxEntry_match (deref m a) path then Ret False else Mux_Contains_loop m path as)"

definition Mux_Contains :: "'h Mux \<Rightarrow> string \<Rightarrow> bool outcome" where
  "Mux_Contains m path = Mux_Contains_loop m path (m_entries m)"

fun Mux_ContainsHost_loop :: "'h Mux \<Rightarrow> string \<Rightarrow> nat list \<Rightarrow> bool outcome" where
  "Mux_ContainsHost_loop m host [] = Ret False"
| "Mux_ContainsHost_loop m host (a # as) =
     bind_outcome (muxEntry_matchHost (deref m a) host)
       (\<lambda>b. if b then Ret False else Mux_ContainsHost_loop m host as)"

definition Mux_ContainsHost :: "'h Mux \<Rightarrow> string \<Rightarrow> bool outcome" where
  "Mux_ContainsHost m host = Mux_ContainsHost_loop m host (m_entries m)"

fun Mux_Handler_loop :: "'h Mux \<Rightarrow> string \<Rightarrow> nat list \<Rightarrow> ('h option \<times> 'h Mux) outcome" where
  "Mux_Handler_loop m path [] = Ret (None, m)"
| "Mux_Handler_loop m path (a # as) =
     (if muxEntry_match (deref m a) path then
        bind_outcome (muxEntry_handler (deref m a))
          (\<lambda>(h, e). if h \<noteq> None then Ret (h, store m a e) else Mux_Handler_loop (store m a e) path as)
      else Mux_Handler_loop m path as)"

definition Mux_Handler :: "'h Mux \<Rightarrow> string \<Rightarrow> ('h option \<times> 'h Mux) outcome" where
  "Mux_Handler m path = Mux_Handler_loop m path (m_entries m)"

section \<open>Well-formed routers\<close>

text \<open>\<open>entry_before x y\<close>: \<open>x\<close> may stand before \<open>y\<close> in the slice. A longer path comes first; only
  a plain path may stand before a longer wildcard one.\<close>

definition entry_before :: "'h muxEntry \<Rightarrow> 'h muxEntry \<Rightarrow> bool" where
  "entry_before x y \<longleftrightarrow>
     e_wildcard y \<and> \<not> e_wildcard x \<or> length (e_path y) \<le> length (e_path x)"

definition entry_ok :: "'h muxEntry \<Rightarrow> bool" where
  "entry_ok e \<longleftrightarrow>
     e_wildcard e = ContainsAny (e_path e) ''*?[]'' \<and> e_parts e = Split (e_path e) CHR ''/''"

text \<open>The invariant: the slice lists every allocated entry once and in order, the map points
  to entries of the right path that have handlers, and an entry with handlers is in
  the map (the entries \<open>Remove\<close> has emptied stay in the slice but are dead).\<close>

definition wf_mux :: "'h Mux \<Rightarrow> bool" where
  "wf_mux m \<longleftrightarrow>
     distinct (m_entries m) \<and> set (m_entries m) = {..<length (m_heap m)} \<and>
     list_all entry_ok (m_heap m) \<and>
     (\<forall>p a. m_entryMap m p = Some a \<longrightarrow>
        a < length (m_heap m) \<and> e_path (deref m a) = p \<and> e_handlers (deref m a) \<noteq> []) \<and>
     (\<forall>a < length (m_heap m). e_handlers (deref m a) \<noteq> [] \<longrightarrow>
        m_entryMap m (e_path (deref m a)) = Some a) \<and>
     sorted_wrt (\<lambda>a b. entry_before (deref m a) (deref m b)) (m_entries m)"

text \<open>What the router promises: the handlers registered for each path.\<close>

definition table :: "'h Mux \<Rightarrow> string \<Rightarrow> 'h muxHandler list" where
  "table m p = (case m_entryMap m p of None \<Rightarrow> [] | Some a \<Rightarrow> e_handlers (deref m a))"

definition is_wildcard :: "string \<Rightarrow> bool" where
  "is_wildcard p = ContainsAny p ''*?[]''"

definition path_matches :: "string \<Rightarrow> string \<Rightarrow> bool" where
  "path_matches p q = muxEntry_match (newEntry p :: unit muxEntry) q"

definition same_shape :: "'h muxEntry \<Rightarrow> 'h muxEntry \<Rightarrow> bool" where
  "same_shape e e' \<longleftrightarrow>
     e_path e = e_path e' \<and> e_wildcard e = e_wildcard e' \<and> e_parts e = e_parts e'"

lemma wf_mux_zero [simp]: "wf_mux Mux_zero"
  by (simp add: wf_mux_def Mux_zero_def)

lemma entry_ok_newEntry [simp]: "entry_ok (muxEntry_add (newEntry p) h i)"
  by (simp add: entry_ok_def muxEntry_add_def newEntry_def)

lemma entry_ok_shape: "same_shape e e' \<Longrightarrow> entry_ok e \<longleftrightarrow> entry_ok e'"
  by (auto simp: entry_ok_def same_shape_def)

lemma match_shape: "same_shape e e' \<Longrightarrow> muxEntry_match e q = muxEntry_match e' q"
  by (simp add: muxEntry_match_def same_shape_def)

lemma match_entry_ok: "entry_ok e \<Longrightarrow> muxEntry_match e q = path_matches (e_path e) q"
  by (simp add: muxEntry_match_def path_matches_def entry_ok_def newEntry_def)

lemma same_shape_ops [simp]:
  "same_shape (muxEntry_add e h i) e"
  "same_shape (muxEntry_remove e i) e"
  "same_shape (e\<lparr>e_next := n\<rparr>) e"
  by (simp_all add: same_shape_def muxEntry_add_def muxEntry_remove_def)

lemma handlers_ops [simp]:
  "e_handlers (muxEntry_add e h i) = e_handlers e @ [\<lparr>mh_handler = h, mh_id = i\<rparr>]"
  "e_handlers (muxEntry_remove e i) = remove_first (\<lambda>x. mh_id x = i) (e_handlers e)"
  "e_path (muxEntry_add e h i) = e_path e"
  "e_handlers (newEntry p) = []"
  "e_path (newEntry p) = p"
  "e_wildcard (muxEntry_add e h i) = e_wildcard e"
  by (simp_all add: muxEntry_add_def muxEntry_remove_def newEntry_def)

text \<open>Overwriting an entry by one of the same shape keeps the shape of the whole router.\<close>

lemma store_shape:
  assumes "same_shape e (deref m a)"
  shows "same_shape ((m_heap m)[a := e] ! b) (deref m b)"
  using assms by (cases "a = b"; cases "a < length (m_heap m)") (auto simp: same_shape_def list_update_beyond)

lemma before_shape:
  "same_shape x x' \<Longrightarrow> same_shape y y' \<Longrightarrow> entry_before x y = entry_before x' y'"
  by (simp add: entry_before_def same_shape_def)

lemma wf_muxD:
  assumes "wf_mux m"
  shows wf_distinct: "distinct (m_entries m)"
    and wf_set: "set (m_entries m) = {..<length (m_heap m)}"
    and wf_ok: "a < length (m_heap m) \<Longrightarrow> entry_ok (deref m a)"
    and wf_map: "m_entryMap m p = Some a \<Longrightarrow>
      a < length (m_heap m) \<and> e_path (deref m a) = p \<and> e_handlers (deref m a) \<noteq> []"
    and wf_live: "a < length (m_heap m) \<Longrightarrow> e_handlers (deref m a) \<noteq> [] \<Longrightarrow>
      m_entryMap m (e_path (deref m a)) = Some a"
    and wf_sorted: "sorted_wrt (\<lambda>a b. entry_before (deref m a) (deref m b)) (m_entries m)"
  using assms unfolding wf_mux_def list_all_length by blast+

lemma wf_store:
  assumes wf: "wf_mux m" and a: "a < length (m_heap m)" and shape: "same_shape e (deref m a)"
    and live: "e_handlers e \<noteq> [] \<longleftrightarrow> e_handlers (deref m a) \<noteq> []"
  shows "wf_mux (store m a e)"
proof -
  let ?h = "(m_heap m)[a := e]"
  have shp: "same_shape (?h ! b) (deref m b)" for b
    using shape by (rule store_shape)
  then have path: "e_path (?h ! b) = e_path (deref m b)" for b by (simp add: same_shape_def)
  have hs: "e_handlers (?h ! b) \<noteq> [] \<longleftrightarrow> e_handlers (deref m b) \<noteq> []" if "b < length (m_heap m)" for b
    using live a that by (cases "a = b") auto
  have ok: "list_all entry_ok ?h"
    using wf_ok [OF wf] entry_ok_shape [OF shp] by (simp add: list_all_length)
  have "sorted_wrt (\<lambda>a b. entry_before (?h ! a) (?h ! b)) (m_entries m)"
    using wf_sorted [OF wf] before_shape [OF shp shp] by simp
  with ok show ?thesis
    unfolding wf_mux_def using wf_distinct [OF wf] wf_set [OF wf] wf_map [OF wf] wf_live [OF wf] hs path
    by simp
qed

section \<open>Add\<close>

lemma insertPos_Some:
  assumes "insertPos m e i as = Some k"
  obtains xs b ys where "as = xs @ b # ys" "k = i + length xs"
    "\<forall>x \<in> set xs. entry_before (deref m x) e"
    "\<not> entry_before (deref m b) e"
  using assms
proof (induction as arbitrary: i thesis)
  case Nil
  then show ?case by simp
next
  case (Cons a as)
  show ?case
  proof (cases "entry_before (deref m a) e")
    case True
    with Cons.prems(2) have "insertPos m e (i + 1) as = Some k"
      by (auto simp: entry_before_def split: if_splits)
    then obtain xs b ys where "as = xs @ b # ys" "k = (i + 1) + length xs"
      "\<forall>x \<in> set xs. entry_before (deref m x) e" "\<not> entry_before (deref m b) e"
      using Cons.IH by blast
    with True show ?thesis by (intro Cons.prems(1) [of "a # xs"]) auto
  next
    case False
    with Cons.prems(2) have "k = i"
      by (auto simp: entry_before_def split: if_splits)
    with False show ?thesis by (intro Cons.prems(1) [of "[]"]) auto
  qed
qed

lemma insertPos_None:
  "insertPos m e i as = None \<Longrightarrow> \<forall>x \<in> set as. entry_before (deref m x) e"
  by (induction as arbitrary: i) (auto simp: entry_before_def split: if_splits)

text \<open>Everything behind an entry that may not stand before \<open>e\<close> may stand behind \<open>e\<close>.\<close>

lemma entry_before_behind:
  assumes "\<not> entry_before b e"
  shows "entry_before e b" and "entry_before b y \<Longrightarrow> entry_before e y"
  using assms by (auto simp: entry_before_def)

text \<open>The slice after \<open>Add\<close> of a new path: the new address inserted somewhere, in order.\<close>

lemma Add_new_entries:
  assumes new: "m_entryMap m path = None"
    and srt: "sorted_wrt (\<lambda>a b. entry_before (deref m a) (deref m b)) (m_entries m)"
    and addr: "set (m_entries m) = {..<length (m_heap m)}"
  obtains xs ys where
    "m_entries m = xs @ ys"
    "Mux_Add m path h i =
       m\<lparr>m_heap := m_heap m @ [muxEntry_add (newEntry path) h i],
         m_entryMap := (m_entryMap m)(path \<mapsto> length (m_heap m)),
         m_entries := xs @ length (m_heap m) # ys\<rparr>"
    "\<forall>x \<in> set xs. entry_before (deref m x) (muxEntry_add (newEntry path) h i)"
    "\<forall>y \<in> set ys. entry_before (muxEntry_add (newEntry path) h i) (deref m y)"
proof -
  let ?e = "muxEntry_add (newEntry path) h i"
  let ?a = "length (m_heap m)"
  let ?m1 = "m\<lparr>m_heap := m_heap m @ [?e], m_entryMap := (m_entryMap m)(path \<mapsto> ?a)\<rparr>"
  have old: "deref ?m1 b = deref m b" if "b \<in> set (m_entries m)" for b
    using that addr by (simp add: nth_append)
  show thesis
  proof (cases "insertPos ?m1 ?e 0 (m_entries m)")
    case None
    from insertPos_None [OF None] old
    have "\<forall>x \<in> set (m_entries m). entry_before (deref m x) ?e" by simp
    with new None show thesis
      by (intro that [of "m_entries m" "[]"]) (auto simp: Mux_Add_def Let_def)
  next
    case (Some k)
    then obtain xs b ys where split: "m_entries m = xs @ b # ys" "k = length xs"
      and before: "\<forall>x \<in> set xs. entry_before (deref ?m1 x) ?e"
      and behind: "\<not> entry_before (deref ?m1 b) ?e"
      by (auto elim: insertPos_Some)
    from before old split have xs: "\<forall>x \<in> set xs. entry_before (deref m x) ?e" by simp
    from behind old split have b: "\<not> entry_before (deref m b) ?e" by simp
    from srt split have "\<forall>y \<in> set ys. entry_before (deref m b) (deref m y)"
      by (simp add: sorted_wrt_append)
    with entry_before_behind [OF b] have ys: "\<forall>y \<in> set (b # ys). entry_before ?e (deref m y)"
      by auto
    have "(take (k + 1) (m_entries m) @ drop k (m_entries m))[k := ?a] = xs @ ?a # b # ys"
      using split by (subst slice_insert) simp_all
    with new Some split(1) xs ys show thesis
      by (intro that [of xs "b # ys"]) (auto simp: Mux_Add_def Let_def)
  qed
qed

lemma wf_Add_new:
  assumes wf: "wf_mux m" and new: "m_entryMap m path = None"
  shows "wf_mux (Mux_Add m path h i)"
proof -
  let ?e = "muxEntry_add (newEntry path) h i"
  let ?a = "length (m_heap m)"
  obtain xs ys where es: "m_entries m = xs @ ys"
    and add: "Mux_Add m path h i =
       m\<lparr>m_heap := m_heap m @ [?e], m_entryMap := (m_entryMap m)(path \<mapsto> ?a), m_entries := xs @ ?a # ys\<rparr>"
    and xs: "\<forall>x \<in> set xs. entry_before (deref m x) ?e"
    and ys: "\<forall>y \<in> set ys. entry_before ?e (deref m y)"
    using Add_new_entries [OF new wf_sorted [OF wf] wf_set [OF wf]] by blast
  have set_es: "set (xs @ ys) = {..<?a}" using wf_set [OF wf] es by simp
  let ?h = "m_heap m @ [?e]"
  have old: "?h ! b = deref m b" if "b < ?a" for b using that by (simp add: nth_append)
  have lt: "b \<in> set xs \<Longrightarrow> b < ?a" "b \<in> set ys \<Longrightarrow> b < ?a" for b using set_es by auto
  have "sorted_wrt (\<lambda>a b. entry_before (?h ! a) (?h ! b)) (xs @ ys)"
    using wf_sorted [OF wf] set_es old es by (subst sorted_wrt_cong_set) auto
  moreover have "\<forall>x \<in> set xs. entry_before (?h ! x) (?h ! ?a)" "\<forall>y \<in> set ys. entry_before (?h ! ?a) (?h ! y)"
    using xs ys lt old by simp_all
  ultimately have "sorted_wrt (\<lambda>a b. entry_before (?h ! a) (?h ! b)) (xs @ ?a # ys)"
    by (rule sorted_wrt_insert)
  moreover have "distinct (xs @ ?a # ys)" "set (xs @ ?a # ys) = {..<Suc ?a}"
    using wf_distinct [OF wf] set_es es by auto
  moreover have "list_all entry_ok ?h"
    using wf by (simp add: wf_mux_def)
  moreover have "b < Suc ?a \<and> e_path (?h ! b) = p \<and> e_handlers (?h ! b) \<noteq> []"
    if "((m_entryMap m)(path \<mapsto> ?a)) p = Some b" for p b
    using that wf_map [OF wf, of p b] old by (auto split: if_splits)
  moreover have "((m_entryMap m)(path \<mapsto> ?a)) (e_path (?h ! b)) = Some b"
    if "b < Suc ?a" "e_handlers (?h ! b) \<noteq> []" for b
    using that wf_live [OF wf, of b] new old by (cases "b = ?a") auto
  ultimately show ?thesis
    unfolding wf_mux_def add by simp
qed

lemma wf_Add [simp, intro]:
  assumes wf: "wf_mux m"
  shows "wf_mux (Mux_Add m path h i)"
proof (cases "m_entryMap m path")
  case None
  with wf show ?thesis by (rule wf_Add_new)
next
  case (Some a)
  then show ?thesis
    using wf_map [OF wf Some] wf by (auto simp: Mux_Add_def intro!: wf_store)
qed

lemma table_store:
  assumes "wf_mux m" "m_entryMap m p = Some a"
  shows "table (store m a e) = (table m)(p := e_handlers e)"
proof
  fix q
  show "table (store m a e) q = ((table m)(p := e_handlers e)) q"
  proof (cases "m_entryMap m q")
    case None
    with assms show ?thesis by (auto simp: table_def)
  next
    case (Some b)
    have "b = a \<longleftrightarrow> q = p"
      using wf_map [OF assms(1) Some] wf_map [OF assms] Some assms(2) by (metis option.inject)
    moreover have "a < length (m_heap m)" using wf_map [OF assms] by simp
    ultimately show ?thesis
      using Some by (cases "b = a") (simp_all add: table_def)
  qed
qed

theorem table_Add:
  assumes wf: "wf_mux m"
  shows "table (Mux_Add m path h i) =
    (table m)(path := table m path @ [\<lparr>mh_handler = h, mh_id = i\<rparr>])"
proof (cases "m_entryMap m path")
  case (Some a)
  then show ?thesis
    using table_store [OF wf Some] by (simp add: Mux_Add_def table_def)
next
  case None
  obtain xs ys where add: "Mux_Add m path h i =
       m\<lparr>m_heap := m_heap m @ [muxEntry_add (newEntry path) h i],
         m_entryMap := (m_entryMap m)(path \<mapsto> length (m_heap m)), m_entries := xs @ length (m_heap m) # ys\<rparr>"
    by (rule Add_new_entries [OF None wf_sorted [OF wf] wf_set [OF wf], of h i]) (rule that)
  show ?thesis
  proof
    fix q
    show "table (Mux_Add m path h i) q =
      ((table m)(path := table m path @ [\<lparr>mh_handler = h, mh_id = i\<rparr>])) q"
    proof (cases "q = path \<or> m_entryMap m q = None")
      case True
      with None show ?thesis by (auto simp: add table_def)
    next
      case False
      then obtain b where b: "m_entryMap m q = Some b" "b < length (m_heap m)"
        using wf_map [OF wf] by blast
      with False show ?thesis by (simp add: add table_def nth_append)
    qed
  qed
qed

section \<open>Remove\<close>

lemma Remove_Some:
  assumes "m_entryMap m path = Some a"
  shows "Mux_Remove m path i =
    (if remove_first (\<lambda>x. mh_id x = i) (e_handlers (deref m a)) = []
     then (store m a (muxEntry_remove (deref m a) i))\<lparr>m_entryMap := (m_entryMap m)(path := None)\<rparr>
     else store m a (muxEntry_remove (deref m a) i))"
  using assms by (simp add: Mux_Remove_def Let_def)

lemma wf_Remove_last:
  assumes wf: "wf_mux m" and a: "m_entryMap m path = Some a"
    and empty: "remove_first (\<lambda>x. mh_id x = i) (e_handlers (deref m a)) = []"
  shows "wf_mux ((store m a (muxEntry_remove (deref m a) i))\<lparr>m_entryMap := (m_entryMap m)(path := None)\<rparr>)"
proof -
  let ?e = "muxEntry_remove (deref m a) i"
  let ?h = "(m_heap m)[a := ?e]"
  note A = wf_map [OF wf a]
  have shp: "same_shape (?h ! b) (deref m b)" for b by (rule store_shape) simp
  then have path: "e_path (?h ! b) = e_path (deref m b)" for b by (simp add: same_shape_def)
  have "list_all entry_ok ?h"
    using wf_ok [OF wf] entry_ok_shape [OF shp] by (simp add: list_all_length)
  moreover have "sorted_wrt (\<lambda>a b. entry_before (?h ! a) (?h ! b)) (m_entries m)"
    using wf_sorted [OF wf] before_shape [OF shp shp] by simp
  moreover have "b < length (m_heap m) \<and> e_path (?h ! b) = p \<and> e_handlers (?h ! b) \<noteq> []"
    if "((m_entryMap m)(path := None)) p = Some b" for p b
    using that wf_map [OF wf, of p b] A path by (cases "a = b") (auto split: if_splits)
  moreover have "((m_entryMap m)(path := None)) (e_path (?h ! b)) = Some b"
    if "b < length (m_heap m)" "e_handlers (?h ! b) \<noteq> []" for b
    using that empty A path wf_live [OF wf, of b] a by (cases "a = b") auto
  ultimately show ?thesis
    using wf_distinct [OF wf] wf_set [OF wf] unfolding wf_mux_def by simp
qed

lemma wf_Remove [simp, intro]:
  assumes wf: "wf_mux m"
  shows "wf_mux (Mux_Remove m path i)"
proof (cases "m_entryMap m path")
  case None
  with wf show ?thesis by (simp add: Mux_Remove_def)
next
  case (Some a)
  then show ?thesis
    using wf wf_map [OF wf Some] wf_Remove_last [OF wf Some]
    by (auto simp: Remove_Some intro!: wf_store)
qed

theorem table_Remove:
  assumes wf: "wf_mux m"
  shows "table (Mux_Remove m path i) =
    (table m)(path := remove_first (\<lambda>x. mh_id x = i) (table m path))"
proof (cases "m_entryMap m path")
  case None
  then show ?thesis by (auto simp: Mux_Remove_def table_def)
next
  case (Some a)
  have "table ((store m a e)\<lparr>m_entryMap := (m_entryMap m)(path := None)\<rparr>) = (table (store m a e))(path := [])" for e
    by (simp add: table_def fun_eq_iff split: option.split)
  with Some table_store [OF wf Some] show ?thesis
    by (simp add: Remove_Some table_def)
qed

section \<open>The router provides the routing-table interface\<close>

definition mux_targets :: "'h Mux \<Rightarrow> targets" where
  "mux_targets m p = mset (map mh_id (table m p))"

interpretation router: routing_table wf_mux mux_targets Mux_Add Mux_Remove
proof unfold_locales
  fix m :: "'h Mux" and p i h
  assume wf: "wf_mux m"
  then show "wf_mux (Mux_Add m p h i)" "wf_mux (Mux_Remove m p i)" by auto
  show "mux_targets (Mux_Add m p h i) = (mux_targets m)(p := add_mset i (mux_targets m p))"
    by (simp add: mux_targets_def table_Add [OF wf] fun_eq_iff)
  show "mux_targets (Mux_Remove m p i) = (mux_targets m)(p := mux_targets m p - {#i#})"
    by (simp add: mux_targets_def table_Remove [OF wf] fun_eq_iff mset_map_remove_first)
qed

section \<open>Handler: no panic, and only counters change\<close>

lemma handler_index:
  fixes n :: nat and x :: "32 word"
  assumes "(word_of_nat n :: 32 word) \<noteq> 0"
  shows "unat (x mod word_of_nat n) < n"
proof -
  let ?c = "word_of_nat n :: 32 word"
  have "unat (x mod ?c) = unat x mod unat ?c" by (rule unat_mod_distrib)
  also have "\<dots> < unat ?c" using assms by (simp add: unat_gt_0)
  also have "\<dots> \<le> n" by (simp add: unat_of_nat)
  finally show ?thesis .
qed

definition pick :: "'h muxEntry \<Rightarrow> nat" where
  "pick e = unat ((e_next e + 1) mod word_of_nat (length (e_handlers e)))"

lemma muxEntry_handler_eq:
  "muxEntry_handler e =
     (if (word_of_nat (length (e_handlers e)) :: 32 word) = 0 then Ret (None, e)
      else Ret (mh_handler (e_handlers e ! pick e), e\<lparr>e_next := e_next e + 1\<rparr>))"
  using handler_index [of "length (e_handlers e)" "e_next e + 1"]
  by (simp add: muxEntry_handler_def pick_def Let_def)

text \<open>\<open>counters_only m m'\<close>: \<open>m'\<close> is \<open>m\<close> up to the entries' counters.\<close>

definition counters_only :: "'h Mux \<Rightarrow> 'h Mux \<Rightarrow> bool" where
  "counters_only m m' \<longleftrightarrow>
     m_entries m' = m_entries m \<and> m_entryMap m' = m_entryMap m \<and>
     length (m_heap m') = length (m_heap m) \<and>
     (\<forall>a. same_shape (deref m' a) (deref m a) \<and> e_handlers (deref m' a) = e_handlers (deref m a))"

lemma counters_only_refl [simp]: "counters_only m m"
  by (simp add: counters_only_def same_shape_def)

lemma counters_only_trans:
  "counters_only m m' \<Longrightarrow> counters_only m' m'' \<Longrightarrow> counters_only m m''"
  by (simp add: counters_only_def same_shape_def)

lemma counters_only_store [simp]: "counters_only m (store m a ((deref m a)\<lparr>e_next := n\<rparr>))"
proof -
  have "same_shape ((m_heap m)[a := (deref m a)\<lparr>e_next := n\<rparr>] ! b) (deref m b)" for b
    by (rule store_shape) simp
  moreover have "e_handlers ((m_heap m)[a := (deref m a)\<lparr>e_next := n\<rparr>] ! b) = e_handlers (deref m b)" for b
    by (cases "a < length (m_heap m)"; cases "a = b") (auto simp: list_update_beyond)
  ultimately show ?thesis by (simp add: counters_only_def)
qed

lemma counters_only_wf:
  assumes "counters_only m m'" "wf_mux m"
  shows "wf_mux m'"
proof -
  from assms(1) have eq: "m_entries m' = m_entries m" "m_entryMap m' = m_entryMap m"
    "length (m_heap m') = length (m_heap m)"
    and sh: "same_shape (deref m' a) (deref m a)"
    and hs: "e_handlers (deref m' a) = e_handlers (deref m a)" for a
    by (simp_all add: counters_only_def)
  from sh have path: "e_path (deref m' a) = e_path (deref m a)" for a by (simp add: same_shape_def)
  from assms(2) show ?thesis
    by (simp add: wf_mux_def list_all_length eq hs path entry_ok_shape [OF sh] before_shape [OF sh sh])
qed

lemma counters_only_table: "counters_only m m' \<Longrightarrow> table m' = table m"
  by (auto simp: counters_only_def table_def fun_eq_iff split: option.splits)

lemma Handler_loop_total: "\<exists>r m'. Mux_Handler_loop m q as = Ret (r, m') \<and> counters_only m m'"
proof (induction as arbitrary: m)
  case Nil
  then show ?case by simp
next
  case (Cons a as)
  show ?case
  proof (cases "muxEntry_match (deref m a) q")
    case False
    with Cons.IH [of m] show ?thesis by auto
  next
    case True
    obtain h n where h: "muxEntry_handler (deref m a) = Ret (h, (deref m a)\<lparr>e_next := n\<rparr>)"
      by (cases "word_of_nat (length (e_handlers (deref m a))) = (0 :: 32 word)")
        (auto simp: muxEntry_handler_eq intro: that [of None "e_next (deref m a)"])
    let ?m1 = "store m a ((deref m a)\<lparr>e_next := n\<rparr>)"
    show ?thesis
    proof (cases "h = None")
      case False
      with True h show ?thesis by auto
    next
      case nil: True
      obtain r m' where "Mux_Handler_loop ?m1 q as = Ret (r, m')" "counters_only ?m1 m'"
        using Cons.IH by blast
      with True h nil counters_only_trans [OF counters_only_store] show ?thesis by auto
    qed
  qed
qed

text \<open>A request never makes the router panic, and leaves the table as it is.\<close>

lemma Handler_total:
  "\<exists>r m'. Mux_Handler m q = Ret (r, m') \<and> counters_only m m'"
  unfolding Mux_Handler_def by (rule Handler_loop_total)

section \<open>Handler: which entry answers\<close>

text \<open>The router as the server fills it: no nil handler, fewer than \<open>2^32\<close> handlers for a path.\<close>

definition serving :: "'h Mux \<Rightarrow> bool" where
  "serving m \<longleftrightarrow>
     list_all (\<lambda>e. length (e_handlers e) < 2 ^ 32 \<and> list_all (\<lambda>x. mh_handler x \<noteq> None) (e_handlers e))
       (m_heap m)"

definition answers :: "'h Mux \<Rightarrow> string \<Rightarrow> nat \<Rightarrow> bool" where
  "answers m q a \<longleftrightarrow> e_handlers (deref m a) \<noteq> [] \<and> muxEntry_match (deref m a) q"

lemma serving_handler:
  assumes "serving m" "a < length (m_heap m)"
  shows "muxEntry_handler (deref m a) =
    (if e_handlers (deref m a) = [] then Ret (None, deref m a)
     else Ret (mh_handler (e_handlers (deref m a) ! pick (deref m a)),
               (deref m a)\<lparr>e_next := e_next (deref m a) + 1\<rparr>))"
    and "e_handlers (deref m a) \<noteq> [] \<Longrightarrow> pick (deref m a) < length (e_handlers (deref m a))"
    and "e_handlers (deref m a) \<noteq> [] \<Longrightarrow> mh_handler (e_handlers (deref m a) ! pick (deref m a)) \<noteq> None"
proof -
  let ?hs = "e_handlers (deref m a)"
  from assms have small: "length ?hs < 2 ^ 32" and nonil: "list_all (\<lambda>x. mh_handler x \<noteq> None) ?hs"
    by (auto simp: serving_def list_all_length)
  have zero: "(word_of_nat (length ?hs) :: 32 word) = 0 \<longleftrightarrow> ?hs = []"
  proof -
    have "unat (word_of_nat (length ?hs) :: 32 word) = length ?hs"
      using small by (simp add: unat_of_nat)
    then show ?thesis by (metis length_0_conv unat_0_iff)
  qed
  then show "muxEntry_handler (deref m a) =
    (if ?hs = [] then Ret (None, deref m a)
     else Ret (mh_handler (?hs ! pick (deref m a)), (deref m a)\<lparr>e_next := e_next (deref m a) + 1\<rparr>))"
    by (simp add: muxEntry_handler_eq)
  show idx: "pick (deref m a) < length ?hs" if "?hs \<noteq> []"
    using that zero unfolding pick_def by (intro handler_index) simp
  show "mh_handler (?hs ! pick (deref m a)) \<noteq> None" if "?hs \<noteq> []"
    using idx [OF that] nonil by (simp add: list_all_length)
qed

lemma Handler_loop_find:
  assumes "serving m" "set as \<subseteq> {..<length (m_heap m)}"
  shows "Mux_Handler_loop m q as =
    (case find (answers m q) as of
       None \<Rightarrow> Ret (None, m)
     | Some a \<Rightarrow> Ret (mh_handler (e_handlers (deref m a) ! pick (deref m a)),
                    store m a ((deref m a)\<lparr>e_next := e_next (deref m a) + 1\<rparr>)))"
  using assms(2)
proof (induction as)
  case Nil
  then show ?case by simp
next
  case (Cons a as)
  then have a: "a < length (m_heap m)" by simp
  note h = serving_handler [OF assms(1) a]
  show ?case
  proof (cases "muxEntry_match (deref m a) q \<and> e_handlers (deref m a) \<noteq> []")
    case True
    with h(1) h(3) show ?thesis by (simp add: answers_def)
  next
    case False
    have "store m a (deref m a) = m" by simp
    with False h(1) Cons show ?thesis by (auto simp: answers_def)
  qed
qed

lemma Handler_find:
  assumes "wf_mux m" "serving m"
  shows "Mux_Handler m q =
    (case find (answers m q) (m_entries m) of
       None \<Rightarrow> Ret (None, m)
     | Some a \<Rightarrow> Ret (mh_handler (e_handlers (deref m a) ! pick (deref m a)),
                    store m a ((deref m a)\<lparr>e_next := e_next (deref m a) + 1\<rparr>)))"
  unfolding Mux_Handler_def using assms wf_set by (intro Handler_loop_find) auto

text \<open>Entries that can answer are the live paths of the table.\<close>

lemma answers_table:
  assumes wf: "wf_mux m" and a: "a < length (m_heap m)"
  shows "answers m q a \<longleftrightarrow>
    m_entryMap m (e_path (deref m a)) = Some a \<and> path_matches (e_path (deref m a)) q"
  using wf_live [OF wf a] wf_map [OF wf, of "e_path (deref m a)" a] match_entry_ok [OF wf_ok [OF wf a]]
  by (auto simp: answers_def)

lemma table_live:
  assumes wf: "wf_mux m" and p: "table m p \<noteq> []"
  obtains a where "a < length (m_heap m)" "m_entryMap m p = Some a" "e_path (deref m a) = p"
    "table m p = e_handlers (deref m a)"
  using p wf_map [OF wf] by (auto simp: table_def split: option.splits)

section \<open>Routes, request sequences, reachable routers\<close>

text \<open>The path whose entry answers a request, and the counter of a path's entry.\<close>

definition route :: "'h Mux \<Rightarrow> string \<Rightarrow> string option" where
  "route m q = map_option (\<lambda>a. e_path (deref m a)) (find (answers m q) (m_entries m))"

definition counter :: "'h Mux \<Rightarrow> string \<Rightarrow> 32 word" where
  "counter m p = (case m_entryMap m p of None \<Rightarrow> 0 | Some a \<Rightarrow> e_next (deref m a))"

fun Mux_Handlers :: "'h Mux \<Rightarrow> string list \<Rightarrow> ('h option list \<times> 'h Mux) outcome" where
  "Mux_Handlers m [] = Ret ([], m)"
| "Mux_Handlers m (q # qs) =
     bind_outcome (Mux_Handler m q)
       (\<lambda>(r, m1). bind_outcome (Mux_Handlers m1 qs) (\<lambda>(rs, m2). Ret (r # rs, m2)))"

lemma wf_Handler:
  assumes "wf_mux m" "Mux_Handler m q = Ret (r, m')"
  shows "wf_mux m'" and "table m' = table m" and "counters_only m m'"
  using Handler_total [of m q] assms counters_only_wf counters_only_table by auto

lemma counters_only_answers: "counters_only m m' \<Longrightarrow> answers m' q a = answers m q a"
  unfolding counters_only_def answers_def using match_shape by metis

lemma counters_only_serving: "counters_only m m' \<Longrightarrow> serving m \<Longrightarrow> serving m'"
  by (simp add: counters_only_def serving_def list_all_length)

lemma route_split:
  assumes wf: "wf_mux m" and r: "route m q = Some p"
  obtains a as bs where "m_entries m = as @ a # bs" "e_path (deref m a) = p" "answers m q a"
    "\<forall>x \<in> set as. \<not> answers m q x" "m_entryMap m p = Some a" "a < length (m_heap m)"
    "find (answers m q) (m_entries m) = Some a"
proof -
  from r obtain a where find: "find (answers m q) (m_entries m) = Some a" and p: "e_path (deref m a) = p"
    by (auto simp: route_def)
  from find obtain as bs where split: "m_entries m = as @ a # bs" "answers m q a"
    "\<forall>x \<in> set as. \<not> answers m q x" by (rule find_split)
  then have "a \<in> set (m_entries m)" by simp
  then have "a < length (m_heap m)" using wf_set [OF wf] by auto
  with answers_table [OF wf] split p find that show thesis by blast
qed

lemma route_None_iff:
  assumes wf: "wf_mux m"
  shows "route m q = None \<longleftrightarrow> (\<forall>p. table m p \<noteq> [] \<longrightarrow> \<not> path_matches p q)"
proof -
  have "route m q = None \<longleftrightarrow> (\<forall>a < length (m_heap m). \<not> answers m q a)"
    using wf_set [OF wf] by (auto simp: route_def find_None_iff)
  also have "\<dots> \<longleftrightarrow> (\<forall>p. table m p \<noteq> [] \<longrightarrow> \<not> path_matches p q)"
  proof safe
    fix p assume "\<forall>a < length (m_heap m). \<not> answers m q a" "table m p \<noteq> []" "path_matches p q"
    then show False using answers_table [OF wf] by (auto elim!: table_live [OF wf])
  next
    fix a assume "\<forall>p. table m p \<noteq> [] \<longrightarrow> \<not> path_matches p q" "a < length (m_heap m)" "answers m q a"
    moreover from this have "m_entryMap m (e_path (deref m a)) = Some a" "path_matches (e_path (deref m a)) q"
      using answers_table [OF wf] by blast+
    ultimately show False by (metis answers_def option.simps(5) table_def)
  qed
  finally show ?thesis .
qed

lemma Handler_route:
  assumes wf: "wf_mux m" and srv: "serving m" and r: "route m q = Some p"
  obtains m' where
    "Mux_Handler m q = Ret (mh_handler (table m p ! unat ((counter m p + 1) mod word_of_nat (length (table m p)))), m')"
    "wf_mux m'" "serving m'" "route m' q = Some p" "table m' = table m" "counter m' p = counter m p + 1"
proof -
  from wf r obtain a as bs where a: "e_path (deref m a) = p" "m_entryMap m p = Some a" "a < length (m_heap m)"
    "find (answers m q) (m_entries m) = Some a" by (rule route_split)
  let ?m1 = "store m a ((deref m a)\<lparr>e_next := e_next (deref m a) + 1\<rparr>)"
  have co: "counters_only m ?m1" by simp
  have "Mux_Handler m q = Ret (mh_handler (table m p ! unat ((counter m p + 1) mod word_of_nat (length (table m p)))), ?m1)"
    using a by (simp add: Handler_find [OF wf srv] table_def counter_def pick_def)
  moreover have "find (answers ?m1 q) (m_entries ?m1) = Some a"
    using a(4) counters_only_answers [OF co] by (simp add: fun_eq_iff cong: find_cong)
  then have "route ?m1 q = Some p"
    using a by (simp add: route_def)
  moreover have "counter ?m1 p = counter m p + 1"
    using a by (simp add: counter_def)
  ultimately show thesis
    using that counters_only_wf [OF co wf] counters_only_serving [OF co srv] counters_only_table [OF co]
    by blast
qed

text \<open>The handler that answers is one of those registered for the route, and the route matches.\<close>

lemma Handler_from_table:
  assumes wf: "wf_mux m" and srv: "serving m" and r: "route m q = Some p"
  obtains x m' where "x \<in> set (table m p)" "path_matches p q" "Mux_Handler m q = Ret (mh_handler x, m')"
proof -
  from wf r obtain a as bs where a: "e_path (deref m a) = p" "m_entryMap m p = Some a" "a < length (m_heap m)" "answers m q a"
    by (rule route_split)
  have tab: "table m p = e_handlers (deref m a)" using a(2) by (simp add: table_def)
  have "length (table m p) < 2 ^ 32" "table m p \<noteq> []"
    using srv a(3,4) by (auto simp: tab serving_def list_all_length answers_def)
  then have "unat ((counter m p + 1) mod word_of_nat (length (table m p))) < length (table m p)"
    by (simp add: unat_mod unat_of_nat32)
  then have "table m p ! unat ((counter m p + 1) mod word_of_nat (length (table m p))) \<in> set (table m p)" by simp
  moreover have "path_matches p q"
    using a(1,4) match_entry_ok [OF wf_ok [OF wf a(3)]] by (simp add: answers_def)
  moreover from wf srv r obtain m' where
    "Mux_Handler m q = Ret (mh_handler (table m p ! unat ((counter m p + 1) mod word_of_nat (length (table m p)))), m')"
    by (rule Handler_route)
  ultimately show thesis by (rule that)
qed

lemma Handler_no_route:
  assumes wf: "wf_mux m" and srv: "serving m" and r: "route m q = None"
  shows "Mux_Handler m q = Ret (None, m)"
  using r by (simp add: Handler_find [OF wf srv] route_def)

text \<open>\<open>j\<close> requests in a row for a path: the handlers at consecutive counter values.\<close>

lemma Handlers_replicate:
  assumes "wf_mux m" "serving m" "route m q = Some p"
  shows "\<exists>m'. Mux_Handlers m (replicate j q) =
    Ret (map (\<lambda>i. mh_handler (table m p ! unat ((counter m p + 1 + word_of_nat i) mod word_of_nat (length (table m p))))) [0..<j], m')"
  using assms
proof (induction j arbitrary: m)
  case 0
  then show ?case by simp
next
  case (Suc j)
  from Suc.prems obtain m1 where m1:
    "Mux_Handler m q = Ret (mh_handler (table m p ! unat ((counter m p + 1) mod word_of_nat (length (table m p)))), m1)"
    and inv: "wf_mux m1" "serving m1" "route m1 q = Some p"
    and tab: "table m1 = table m" and cnt: "counter m1 p = counter m p + 1"
    by (rule Handler_route)
  from Suc.IH [OF inv] obtain m2 where m2: "Mux_Handlers m1 (replicate j q) =
    Ret (map (\<lambda>i. mh_handler (table m1 p ! unat ((counter m1 p + 1 + word_of_nat i) mod word_of_nat (length (table m1 p))))) [0..<j], m2)"
    by blast
  show ?case
    using m1 m2 by (simp add: map_upt_Suc tab cnt ac_simps del: upt_Suc)
qed

lemma rotate_conv_map: "rotate k xs = map (\<lambda>i. xs ! ((k + i) mod length xs)) [0..<length xs]"
  by (rule nth_equalityI) (simp_all add: nth_rotate)

text \<open>Without wrap-around between, or when the number of handlers divides \<open>2^32\<close>, the counter
  walks through the indices modulo the number of handlers.\<close>

lemma counter_walk:
  fixes c :: "32 word"
  assumes n: "0 < n" "n < 2 ^ 32" and i: "i < n" and nowrap: "unat c + n < 2 ^ 32 \<or> n dvd 2 ^ 32"
  shows "unat ((c + 1 + word_of_nat i) mod word_of_nat n) = (unat c + 1 + i) mod n"
proof -
  have "c + 1 + word_of_nat i = word_of_nat (unat c + 1 + i)" by simp
  then have "unat ((c + 1 + word_of_nat i) mod word_of_nat n) =
    (unat c + 1 + i) mod 2 ^ 32 mod n"
    using n(2) by (simp only: unat_mod_distrib unat_of_nat) simp
  also have "\<dots> = (unat c + 1 + i) mod n"
    using nowrap i by (auto simp: mod_mod_cancel)
  finally show ?thesis .
qed

section \<open>Operation sequences and their specification\<close>

datatype 'h mux_op = OpAdd string "'h option" string | OpRemove string string | OpRequest string

fun mux_exec :: "'h mux_op \<Rightarrow> 'h Mux \<Rightarrow> 'h Mux outcome" where
  "mux_exec (OpAdd path h i) m = Ret (Mux_Add m path h i)"
| "mux_exec (OpRemove path i) m = Ret (Mux_Remove m path i)"
| "mux_exec (OpRequest q) m = bind_outcome (Mux_Handler m q) (\<lambda>(r, m'). Ret m')"

fun mux_run :: "'h mux_op list \<Rightarrow> 'h Mux \<Rightarrow> 'h Mux outcome" where
  "mux_run [] m = Ret m"
| "mux_run (x # xs) m = bind_outcome (mux_exec x m) (mux_run xs)"

text \<open>The specification: a table from paths to handler lists.\<close>

fun table_exec ::
  "'h mux_op \<Rightarrow> (string \<Rightarrow> 'h muxHandler list) \<Rightarrow> string \<Rightarrow> 'h muxHandler list" where
  "table_exec (OpAdd path h i) t = t(path := t path @ [\<lparr>mh_handler = h, mh_id = i\<rparr>])"
| "table_exec (OpRemove path i) t = t(path := remove_first (\<lambda>x. mh_id x = i) (t path))"
| "table_exec (OpRequest q) t = t"

lemma mux_exec_refines:
  assumes "wf_mux m"
  obtains m' where "mux_exec x m = Ret m'" "wf_mux m'" "table m' = table_exec x (table m)"
proof (cases x)
  case (OpAdd path h i)
  with assms that show thesis by (simp add: table_Add)
next
  case (OpRemove path i)
  with assms that show thesis by (simp add: table_Remove)
next
  case (OpRequest q)
  obtain r m' where "Mux_Handler m q = Ret (r, m')" using Handler_total by blast
  with OpRequest that wf_Handler [OF assms] show thesis by simp
qed

lemma mux_run_refines:
  assumes "wf_mux m"
  shows "\<exists>m'. mux_run xs m = Ret m' \<and> wf_mux m' \<and> table m' = fold table_exec xs (table m)"
  using assms
proof (induction xs arbitrary: m)
  case Nil
  then show ?case by simp
next
  case (Cons x xs)
  obtain m1 where "mux_exec x m = Ret m1" "wf_mux m1" "table m1 = table_exec x (table m)"
    using Cons.prems by (rule mux_exec_refines)
  with Cons.IH [of m1] show ?case by auto
qed

lemma table_zero [simp]: "table Mux_zero = (\<lambda>_. [])"
  by (simp add: table_def Mux_zero_def fun_eq_iff)

lemma add_remove_cycle:
  assumes wf: "wf_mux m" and new: "m_entryMap m p = None"
  shows "m_entryMap (Mux_Remove (Mux_Add m p h i) p i) p = None"
    and "length (m_entries (Mux_Remove (Mux_Add m p h i) p i)) = Suc (length (m_entries m))"
    and "table (Mux_Remove (Mux_Add m p h i) p i) = table m"
proof -
  obtain xs ys where es: "m_entries m = xs @ ys"
    and add: "Mux_Add m p h i =
       m\<lparr>m_heap := m_heap m @ [muxEntry_add (newEntry p) h i],
         m_entryMap := (m_entryMap m)(p \<mapsto> length (m_heap m)), m_entries := xs @ length (m_heap m) # ys\<rparr>"
    by (rule Add_new_entries [OF new wf_sorted [OF wf] wf_set [OF wf], of h i]) (rule that)
  show "m_entryMap (Mux_Remove (Mux_Add m p h i) p i) p = None"
    by (simp add: add Remove_Some)
  show "length (m_entries (Mux_Remove (Mux_Add m p h i) p i)) = Suc (length (m_entries m))"
    by (simp add: add Remove_Some es)
  show "table (Mux_Remove (Mux_Add m p h i) p i) = table m"
    using new wf by (simp add: table_Remove table_Add remove_first_append fun_eq_iff)
      (simp add: table_def)
qed

lemma ContainsHost_loop_False: "Mux_ContainsHost_loop m host as = Ret b \<Longrightarrow> \<not> b"
  by (induction as) (auto split: if_splits)

lemma ContainsHost_loop_total:
  "\<forall>a \<in> set as. e_parts (deref m a) \<noteq> [] \<Longrightarrow> \<exists>b. Mux_ContainsHost_loop m host as = Ret b"
  by (induction as) (auto simp: muxEntry_matchHost_def split: list.splits)

lemma ContainsHost_False:
  assumes wf: "wf_mux m"
  shows "Mux_ContainsHost m host = Ret False"
proof -
  have "\<forall>a \<in> set (m_entries m). e_parts (deref m a) \<noteq> []"
    using wf_set [OF wf] wf_ok [OF wf] by (auto simp: entry_ok_def)
  then show ?thesis
    using ContainsHost_loop_total ContainsHost_loop_False by (fastforce simp: Mux_ContainsHost_def)
qed

lemma Contains_loop_False: "Mux_Contains_loop m path as = Ret False"
  by (induction as) auto

section \<open>Properties\<close>

definition example_mux :: "nat Mux" where
  "example_mux =
     Mux_Add (Mux_Add (Mux_Add (Mux_Add Mux_zero
       ''loadbalance.com'' (Some 1) ''http://localhost:8081'')
       ''loadbalance.com'' (Some 2) ''http://localhost:8082'')
       ''example.com/*/files'' (Some 3) ''file:///var/www/public/'')
       ''example.com'' (Some 4) ''http://localhost:8080''"

lemma serving_small:
  "list_all (\<lambda>e. length (e_handlers e) \<le> 9 \<and> list_all (\<lambda>x. mh_handler x \<noteq> None) (e_handlers e)) (m_heap m)
   \<Longrightarrow> serving m"
  unfolding serving_def by (erule list.pred_mono_strong) simp

lemma example_mux_ok: "wf_mux example_mux" "serving example_mux"
proof -
  show "wf_mux example_mux" by (simp add: example_mux_def)
  show "serving example_mux" by (rule serving_small) code_simp
qed

text \<open>
  C6. The router implements a table from paths to handler lists. Any sequence of \<open>Add\<close>, \<open>Remove\<close> and
  \<open>Handler\<close> calls on a zero \<open>Mux\<close> completes without a panic, keeps the invariant, and leaves
  exactly the handlers the sequence prescribes: \<open>Add\<close> appends to its path, \<open>Remove\<close> takes out the
  first handler with the id, a request changes nothing.
\<close>
theorem mux_run_implements_table:
  "\<exists>m. mux_run xs Mux_zero = Ret m \<and> wf_mux m \<and> table m = fold table_exec xs (\<lambda>_. [])"
  using mux_run_refines [OF wf_mux_zero] by simp

text \<open>
  C5. Longest match. In a well-formed router without nil handlers a request is refused only if no
  registered path matches it; otherwise the handler that answers is registered for a matching
  path, and any other matching path is at most as long, or is a wildcard path while the
  chosen one is plain.
\<close>
theorem Handler_longest_match:
  assumes wf: "wf_mux m" and srv: "serving m" and run: "Mux_Handler m q = Ret (r, m')"
  shows "case r of
      None \<Rightarrow> \<forall>p. table m p \<noteq> [] \<longrightarrow> \<not> path_matches p q
    | Some h \<Rightarrow> \<exists>p. Some h \<in> mh_handler ` set (table m p) \<and> path_matches p q \<and>
        (\<forall>p'. table m p' \<noteq> [] \<and> path_matches p' q \<longrightarrow>
           length p' \<le> length p \<or> is_wildcard p' \<and> \<not> is_wildcard p)"
proof (cases "route m q")
  case None
  then have "r = None" using run Handler_find [OF wf srv, of q] by (simp add: route_def)
  with None route_None_iff [OF wf] show ?thesis by simp
next
  case (Some p)
  with wf obtain a as bs where a: "m_entries m = as @ a # bs" "e_path (deref m a) = p" "answers m q a"
    "\<forall>x \<in> set as. \<not> answers m q x" "m_entryMap m p = Some a" "a < length (m_heap m)"
    "find (answers m q) (m_entries m) = Some a" by (rule route_split)
  have hs: "table m p = e_handlers (deref m a)" "e_handlers (deref m a) \<noteq> []"
    using a by (simp_all add: table_def answers_def)
  have r: "r = mh_handler (table m p ! pick (deref m a))"
    using run Handler_find [OF wf srv, of q] a hs by simp
  with serving_handler(2,3) [OF srv a(6)] hs obtain h where h: "r = Some h" "Some h \<in> mh_handler ` set (table m p)"
    by (metis image_eqI nth_mem option.exhaust)
  have "length p' \<le> length p \<or> is_wildcard p' \<and> \<not> is_wildcard p"
    if p': "table m p' \<noteq> []" "path_matches p' q" for p'
  proof -
    from wf p'(1) obtain b where b: "b < length (m_heap m)" "m_entryMap m p' = Some b" "e_path (deref m b) = p'"
      by (rule table_live)
    with p'(2) answers_table [OF wf b(1)] have "answers m q b" by simp
    moreover have "b \<in> set (as @ a # bs)" using b(1) wf_set [OF wf] a(1) by auto
    ultimately have "b = a \<or> b \<in> set bs" using a(4) by auto
    then have "b = a \<or> entry_before (deref m a) (deref m b)"
      using wf_sorted [OF wf] a(1) by (auto simp: sorted_wrt_append)
    with a(2) b(3) wf_ok [OF wf b(1)] wf_ok [OF wf a(6)] show ?thesis
      by (auto simp: entry_before_def entry_ok_def is_wildcard_def)
  qed
  with h answers_table [OF wf a(6)] a(2,3) show ?thesis by auto
qed

theorem Handler_longest_match_witness:
  "\<exists>h m'. Mux_Handler example_mux ''example.com/a/files'' = Ret (Some h, m') \<and>
     (\<exists>p. Some h \<in> mh_handler ` set (table example_mux p) \<and> path_matches p ''example.com/a/files'' \<and>
        (\<forall>p'. table example_mux p' \<noteq> [] \<and> path_matches p' ''example.com/a/files'' \<longrightarrow>
           length p' \<le> length p \<or> is_wildcard p' \<and> \<not> is_wildcard p))"
proof -
  have "map_option fst (case Mux_Handler example_mux ''example.com/a/files'' of Ret x \<Rightarrow> Some x | Panic \<Rightarrow> None) = Some (Some 3)"
    by code_simp
  then obtain m' where m': "Mux_Handler example_mux ''example.com/a/files'' = Ret (Some 3, m')"
    by (auto split: outcome.splits)
  with Handler_longest_match [OF example_mux_ok m'] show ?thesis by auto
qed

text \<open>
  C7. Load balancing. As many consecutive requests as a path has handlers are answered by each of its
  handlers exactly once, in the cyclic order of the list, starting after the path's counter,
  provided the 32-bit counter does not wrap in between or the number of handlers divides
  \<open>2^32\<close>.
\<close>
theorem Handler_round_robin:
  assumes wf: "wf_mux m" and srv: "serving m" and r: "route m q = Some p"
    and nowrap: "unat (counter m p) + length (table m p) < 2 ^ 32 \<or> length (table m p) dvd 2 ^ 32"
  shows "\<exists>m'. Mux_Handlers m (replicate (length (table m p)) q) =
    Ret (rotate (unat (counter m p) + 1) (map mh_handler (table m p)), m')"
proof -
  let ?hs = "table m p" and ?c = "counter m p"
  let ?n = "length ?hs"
  from wf r obtain a as bs where a: "answers m q a" "m_entryMap m p = Some a" "a < length (m_heap m)"
    by (rule route_split)
  then have n: "0 < ?n" "?n < 2 ^ 32"
    using srv by (auto simp: table_def answers_def serving_def list_all_length)
  from Handlers_replicate [OF wf srv r, of ?n] obtain m' where
    "Mux_Handlers m (replicate ?n q) =
       Ret (map (\<lambda>i. mh_handler (?hs ! unat ((?c + 1 + word_of_nat i) mod word_of_nat ?n))) [0..<?n], m')"
    by blast
  moreover have "map (\<lambda>i. mh_handler (?hs ! unat ((?c + 1 + word_of_nat i) mod word_of_nat ?n))) [0..<?n] =
    rotate (unat ?c + 1) (map mh_handler ?hs)"
    using counter_walk [OF n _ nowrap] n(1) by (simp add: rotate_conv_map del: rotate_Suc)
  ultimately show ?thesis by simp
qed

theorem Handler_round_robin_witness:
  "\<exists>m'. Mux_Handlers example_mux (replicate 2 ''loadbalance.com/x'') = Ret ([Some 2, Some 1], m')"
proof -
  have "route example_mux ''loadbalance.com/x'' = Some ''loadbalance.com''" by code_simp
  moreover have n: "length (table example_mux ''loadbalance.com'') = 2" by code_simp
  moreover have "counter example_mux ''loadbalance.com'' = 0" by code_simp
  then have "unat (counter example_mux ''loadbalance.com'') + length (table example_mux ''loadbalance.com'') < 2 ^ 32"
    using n by simp
  ultimately have "\<exists>m'. Mux_Handlers example_mux (replicate (length (table example_mux ''loadbalance.com'')) ''loadbalance.com/x'') =
    Ret (rotate (unat (counter example_mux ''loadbalance.com'') + 1) (map mh_handler (table example_mux ''loadbalance.com'')), m')"
    using Handler_round_robin [OF example_mux_ok] by blast
  moreover have "rotate (unat (counter example_mux ''loadbalance.com'') + 1) (map mh_handler (table example_mux ''loadbalance.com'')) = [Some 2, Some 1]"
    by code_simp
  ultimately show ?thesis using n by simp
qed

text \<open>
  No router, whatever it holds, contains any path or host: \<open>Contains\<close> and \<open>ContainsHost\<close> return false
  on their matching branch too, so a well-formed router answers false to every question.
\<close>
theorem Contains_always_false:
  "wf_mux m \<Longrightarrow> Mux_Contains m path = Ret False \<and> Mux_ContainsHost m host = Ret False"
  by (simp add: Mux_Contains_def Contains_loop_False ContainsHost_False)

theorem Contains_always_false_witness:
  "Mux_Contains example_mux ''example.com'' = Ret False \<and> Mux_ContainsHost example_mux ''example.com'' = Ret False \<and>
   route example_mux ''example.com'' = Some ''example.com''"
proof -
  have "route example_mux ''example.com'' = Some ''example.com''" by code_simp
  with Contains_always_false [OF example_mux_ok(1)] show ?thesis by blast
qed

text \<open>
  The order of registration decides between a plain and a wildcard path that match the same
  request: registering the same two paths in the two orders gives routers with the same
  table that answer with different handlers.
\<close>
theorem Add_order_matters:
  "let m1 = Mux_Add (Mux_Add Mux_zero ''a.com'' (Some (1 :: nat)) ''x'') ''*.com/v1'' (Some 2) ''y'';
       m2 = Mux_Add (Mux_Add Mux_zero ''*.com/v1'' (Some (2 :: nat)) ''y'') ''a.com'' (Some 1) ''x''
   in table m1 = table m2 \<and> route m1 ''a.com/v1'' = Some ''a.com'' \<and> route m2 ''a.com/v1'' = Some ''*.com/v1''"
proof -
  have "route (Mux_Add (Mux_Add Mux_zero ''a.com'' (Some (1 :: nat)) ''x'') ''*.com/v1'' (Some 2) ''y'') ''a.com/v1'' = Some ''a.com''"
    by code_simp
  moreover have "route (Mux_Add (Mux_Add Mux_zero ''*.com/v1'' (Some (2 :: nat)) ''y'') ''a.com'' (Some 1) ''x'') ''a.com/v1'' = Some ''*.com/v1''"
    by code_simp
  ultimately show ?thesis by (simp add: table_Add fun_eq_iff)
qed

text \<open>
  \<open>Remove\<close> never shrinks the entries slice: registering and removing a path that is not in the
  table, \<open>n\<close> times over, leaves the table as it was and \<open>n\<close> more (dead) entries to scan.
\<close>
theorem add_remove_leaks_entries:
  assumes wf: "wf_mux m" and new: "table m p = []"
  shows "let m' = ((\<lambda>m. Mux_Remove (Mux_Add m p h i) p i) ^^ n) m
    in table m' = table m \<and> length (m_entries m') = length (m_entries m) + n"
proof -
  let ?f = "\<lambda>m. Mux_Remove (Mux_Add m p h i) p i"
  have none: "m_entryMap m p = None"
    using new wf_map [OF wf] by (auto simp: table_def split: option.splits)
  have "wf_mux ((?f ^^ n) m) \<and> m_entryMap ((?f ^^ n) m) p = None \<and> table ((?f ^^ n) m) = table m \<and>
    length (m_entries ((?f ^^ n) m)) = length (m_entries m) + n"
  proof (induction n)
    case 0
    with wf none show ?case by simp
  next
    case (Suc n)
    then show ?case using add_remove_cycle [of "(?f ^^ n) m" p h i] by (simp add: wf_Remove wf_Add)
  qed
  then show ?thesis by simp
qed

theorem add_remove_leaks_entries_witness:
  "length (m_entries (((\<lambda>m. Mux_Remove (Mux_Add m ''b.com'' (Some 7) ''t'') ''b.com'' ''t'') ^^ 100) example_mux)) = 103"
proof -
  have "table example_mux ''b.com'' = []" "length (m_entries example_mux) = 3" by code_simp+
  then show ?thesis
    using add_remove_leaks_entries [OF example_mux_ok(1), of "''b.com''" 100 "Some 7" "''t''"] by (simp add: Let_def)
qed

end
