(* ===== verification/GoURL.thy ===== *)
theory GoURL
  imports GoStrings
begin

text \<open>
  Go's package \<open>net/url\<close> (of Go 1.18, which the repository is built with), as far as razvhost uses
  it: \<open>Parse\<close>, \<open>String\<close>, \<open>Redacted\<close>, \<open>EscapedPath\<close> and \<open>RequestURI\<close>, with the percent
  coding below them. Errors are values of \<open>url_error\<close>.
\<close>

datatype url_error =
    ControlCharacter
  | MissingScheme
  | ColonInFirstSegment
  | MissingBracket
  | InvalidPort string
  | InvalidUserinfo
  | EscapeError string
  | InvalidHostError string

record Userinfo =
  ui_username :: string
  ui_password :: string
  ui_passwordSet :: bool

record URL =
  Scheme :: string
  Opaque :: string
  User :: "Userinfo option"
  Host :: string
  Path :: string
  RawPath :: string
  ForceQuery :: bool
  RawQuery :: string
  Fragment :: string
  RawFragment :: string

definition URL_zero :: URL where
  "URL_zero = \<lparr>Scheme = [], Opaque = [], User = None, Host = [], Path = [], RawPath = [],
     ForceQuery = False, RawQuery = [], Fragment = [], RawFragment = []\<rparr>"

section \<open>Percent coding\<close>

datatype encoding = encodePath | encodeHost | encodeZone | encodeUserPassword
  | encodeQueryComponent | encodeFragment

definition lower_letter :: "char \<Rightarrow> bool" where
  "lower_letter c \<longleftrightarrow> of_char CHR ''a'' \<le> (of_char c :: nat) \<and> (of_char c :: nat) \<le> of_char CHR ''z''"

definition upper_letter :: "char \<Rightarrow> bool" where
  "upper_letter c \<longleftrightarrow> of_char CHR ''A'' \<le> (of_char c :: nat) \<and> (of_char c :: nat) \<le> of_char CHR ''Z''"

definition digit :: "char \<Rightarrow> bool" where
  "digit c \<longleftrightarrow> of_char CHR ''0'' \<le> (of_char c :: nat) \<and> (of_char c :: nat) \<le> of_char CHR ''9''"

definition ToLower1 :: "char \<Rightarrow> char" where
  "ToLower1 c = (if upper_letter c then char_of ((of_char c :: nat) + 32) else c)"

definition shouldEscape :: "char \<Rightarrow> encoding \<Rightarrow> bool" where
  "shouldEscape c mode \<longleftrightarrow>
     \<not> (lower_letter c \<or> upper_letter c \<or> digit c) \<and>
     \<not> ((mode = encodeHost \<or> mode = encodeZone) \<and>
          c \<in> set ([CHR ''!'', CHR ''$'', CHR ''&'', CHR 0x27, CHR ''('', CHR '')'', CHR ''*'', CHR ''+'',
                  CHR '','', CHR '';'', CHR ''='', CHR '':'', CHR ''['', CHR '']'', CHR ''<'', CHR ''>'', CHR 0x22])) \<and>
     c \<notin> set ''-_.~'' \<and>
     \<not> (c \<in> set ''$&+,/:;=?@'' \<and>
          (case mode of
             encodePath \<Rightarrow> c \<noteq> CHR ''?''
           | encodeUserPassword \<Rightarrow> c \<notin> set ''@/?:''
           | encodeFragment \<Rightarrow> True
           | _ \<Rightarrow> False)) \<and>
     \<not> (mode = encodeFragment \<and> c \<in> set ''!()*'')"

definition ishex :: "char \<Rightarrow> bool" where
  "ishex c \<longleftrightarrow> digit c \<or> c \<in> set ''abcdef'' \<or> c \<in> set ''ABCDEF''"

definition unhex :: "char \<Rightarrow> nat" where
  "unhex c =
     (if digit c then of_char c - of_char CHR ''0''
      else if lower_letter c then of_char c - of_char CHR ''a'' + 10
      else if upper_letter c then of_char c - of_char CHR ''A'' + 10
      else 0)"

definition upperhex :: string where
  "upperhex = ''0123456789ABCDEF''"

fun escape :: "string \<Rightarrow> encoding \<Rightarrow> string" where
  "escape [] mode = []"
| "escape (c # s) mode =
     (if shouldEscape c mode then
        (if c = CHR '' '' \<and> mode = encodeQueryComponent then CHR ''+'' # escape s mode
         else [CHR 0x25, upperhex ! (of_char c div 16), upperhex ! (of_char c mod 16)] @ escape s mode)
      else c # escape s mode)"

fun unescape :: "string \<Rightarrow> encoding \<Rightarrow> url_error + string" where
  "unescape [] mode = Inr []"
| "unescape (c # s) mode =
     (if c = CHR 0x25 then
        (case s of
           a # b # s' \<Rightarrow>
             if \<not> ishex a \<or> \<not> ishex b then Inl (EscapeError [c, a, b])
             else if mode = encodeHost \<and> unhex a < 8 \<and> [a, b] \<noteq> ''25'' then Inl (EscapeError [c, a, b])
             else
               (let v = char_of (unhex a * 16 + unhex b) in
                if mode = encodeZone \<and> [a, b] \<noteq> ''25'' \<and> v \<noteq> CHR '' '' \<and> shouldEscape v encodeHost
                then Inl (EscapeError [c, a, b])
                else map_sum id (Cons v) (unescape s' mode))
         | _ \<Rightarrow> Inl (EscapeError (c # s)))
      else if c = CHR ''+'' then
        map_sum id (Cons (if mode = encodeQueryComponent then CHR '' '' else c)) (unescape s mode)
      else if (mode = encodeHost \<or> mode = encodeZone) \<and> (of_char c :: nat) < 0x80 \<and> shouldEscape c mode
        then Inl (InvalidHostError [c])
      else map_sum id (Cons c) (unescape s mode))"

definition validEncodedPath :: "string \<Rightarrow> bool" where
  "validEncodedPath s \<longleftrightarrow>
     list_all (\<lambda>c. c \<in> set ([CHR ''!'', CHR ''$'', CHR ''&'', CHR 0x27, CHR ''('', CHR '')'', CHR ''*'', CHR ''+'',
                  CHR '','', CHR '';'', CHR ''='', CHR '':'', CHR ''@'', CHR ''['', CHR '']'', CHR 0x25])
               \<or> \<not> shouldEscape c encodePath) s"

definition validEncodedFragment :: "string \<Rightarrow> bool" where
  "validEncodedFragment s \<longleftrightarrow>
     list_all (\<lambda>c. c \<in> set ([CHR ''!'', CHR ''$'', CHR ''&'', CHR 0x27, CHR ''('', CHR '')'', CHR ''*'', CHR ''+'',
                  CHR '','', CHR '';'', CHR ''='', CHR '':'', CHR ''@'', CHR ''['', CHR '']'', CHR 0x25])
               \<or> \<not> shouldEscape c encodeFragment) s"

section \<open>Printing\<close>

definition EscapedPath :: "URL \<Rightarrow> string" where
  "EscapedPath u =
     (if RawPath u \<noteq> [] \<and> validEncodedPath (RawPath u) \<and> unescape (RawPath u) encodePath = Inr (Path u)
      then RawPath u
      else if Path u = ''*'' then ''*''
      else escape (Path u) encodePath)"

definition EscapedFragment :: "URL \<Rightarrow> string" where
  "EscapedFragment u =
     (if RawFragment u \<noteq> [] \<and> validEncodedFragment (RawFragment u)
         \<and> unescape (RawFragment u) encodeFragment = Inr (Fragment u)
      then RawFragment u
      else escape (Fragment u) encodeFragment)"

definition Userinfo_String :: "Userinfo \<Rightarrow> string" where
  "Userinfo_String ui =
     escape (ui_username ui) encodeUserPassword @
     (if ui_passwordSet ui then '':'' @ escape (ui_password ui) encodeUserPassword else [])"

definition first_segment :: "string \<Rightarrow> string" where
  "first_segment s = takeWhile (\<lambda>c. c \<noteq> CHR ''/'') s"

definition query_String :: "URL \<Rightarrow> string" where
  "query_String u = (if ForceQuery u \<or> RawQuery u \<noteq> [] then ''?'' @ RawQuery u else [])"

definition URL_String :: "URL \<Rightarrow> string" where
  "URL_String u =
     (let scheme = (if Scheme u \<noteq> [] then Scheme u @ '':'' else []);
          auth =
            (if Scheme u \<noteq> [] \<or> Host u \<noteq> [] \<or> User u \<noteq> None then
               (if Host u \<noteq> [] \<or> Path u \<noteq> [] \<or> User u \<noteq> None then ''//'' else []) @
               (case User u of None \<Rightarrow> [] | Some ui \<Rightarrow> Userinfo_String ui @ ''@'') @
               (if Host u \<noteq> [] then escape (Host u) encodeHost else [])
             else []);
          path = EscapedPath u;
          slash = (if path \<noteq> [] \<and> hd path \<noteq> CHR ''/'' \<and> Host u \<noteq> [] then ''/'' else []);
          dot = (if scheme @ auth @ slash = [] \<and> CHR '':'' \<in> set (first_segment path) then ''./'' else []);
          hier = (if Opaque u \<noteq> [] then Opaque u else auth @ slash @ dot @ path);
          frag = (if Fragment u \<noteq> [] then ''#'' @ EscapedFragment u else [])
      in scheme @ hier @ query_String u @ frag)"

definition Redacted :: "URL \<Rightarrow> string" where
  "Redacted u =
     URL_String
       (case User u of
          None \<Rightarrow> u
        | Some ui \<Rightarrow> if ui_passwordSet ui then u\<lparr>User := Some (ui\<lparr>ui_password := ''xxxxx''\<rparr>)\<rparr> else u)"

definition RequestURI :: "URL \<Rightarrow> string" where
  "RequestURI u =
     (if Opaque u = [] then (if EscapedPath u = [] then ''/'' else EscapedPath u)
      else if HasPrefix (Opaque u) ''//'' then Scheme u @ '':'' @ Opaque u
      else Opaque u) @ query_String u"

section \<open>Parsing\<close>

text \<open>\<open>getScheme\<close>: the scheme and the rest; \<open>pre\<close> is what was scanned.\<close>

fun getScheme_from :: "string \<Rightarrow> string \<Rightarrow> url_error + string \<times> string" where
  "getScheme_from pre [] = Inr ([], pre)"
| "getScheme_from pre (c # s) =
     (if lower_letter c \<or> upper_letter c then getScheme_from (pre @ [c]) s
      else if digit c \<or> c \<in> set ''+-.'' then
        (if pre = [] then Inr ([], c # s) else getScheme_from (pre @ [c]) s)
      else if c = CHR '':'' then (if pre = [] then Inl MissingScheme else Inr (pre, s))
      else Inr ([], pre @ c # s))"

definition validOptionalPort :: "string \<Rightarrow> bool" where
  "validOptionalPort port \<longleftrightarrow> port = [] \<or> hd port = CHR '':'' \<and> list_all digit (tl port)"

definition LastIndex1 :: "string \<Rightarrow> char \<Rightarrow> nat option" where
  "LastIndex1 s c =
     (if c \<in> set s then Some (length s - Suc (length (takeWhile (\<lambda>x. x \<noteq> c) (rev s)))) else None)"

definition parseHost :: "string \<Rightarrow> url_error + string" where
  "parseHost host =
     (if HasPrefix host ''['' then
        (case LastIndex1 host CHR '']'' of
           None \<Rightarrow> Inl MissingBracket
         | Some i \<Rightarrow>
             if \<not> validOptionalPort (drop (i + 1) host) then Inl (InvalidPort (drop (i + 1) host))
             else
               (case Index (take i host) [CHR 0x25, CHR ''2'', CHR ''5''] of
                  Some zone \<Rightarrow>
                    (case unescape (take zone host) encodeHost of
                       Inl e \<Rightarrow> Inl e
                     | Inr h1 \<Rightarrow>
                       (case unescape (drop zone (take i host)) encodeZone of
                          Inl e \<Rightarrow> Inl e
                        | Inr h2 \<Rightarrow>
                          (case unescape (drop i host) encodeHost of
                             Inl e \<Rightarrow> Inl e
                           | Inr h3 \<Rightarrow> Inr (h1 @ h2 @ h3))))
                | None \<Rightarrow> unescape host encodeHost))
      else
        (case LastIndex1 host CHR '':'' of
           Some i \<Rightarrow>
             if \<not> validOptionalPort (drop i host) then Inl (InvalidPort (drop i host))
             else unescape host encodeHost
         | None \<Rightarrow> unescape host encodeHost))"

definition validUserinfo :: "string \<Rightarrow> bool" where
  "validUserinfo s \<longleftrightarrow>
     list_all (\<lambda>c. lower_letter c \<or> upper_letter c \<or> digit c \<or>
       c \<in> set (''-._:~!$&()*+,;=@'' @ [CHR 0x27, CHR 0x25])) s"

definition parseAuthority :: "string \<Rightarrow> url_error + Userinfo option \<times> string" where
  "parseAuthority authority =
     (case LastIndex1 authority CHR ''@'' of
        None \<Rightarrow> map_sum id (Pair None) (parseHost authority)
      | Some i \<Rightarrow>
         (case parseHost (drop (i + 1) authority) of
            Inl e \<Rightarrow> Inl e
          | Inr host \<Rightarrow>
             (let userinfo = take i authority in
              if \<not> validUserinfo userinfo then Inl InvalidUserinfo
              else
                (case Index userinfo '':'' of
                   None \<Rightarrow>
                     (case unescape userinfo encodeUserPassword of
                        Inl e \<Rightarrow> Inl e
                      | Inr n \<Rightarrow> Inr (Some \<lparr>ui_username = n, ui_password = [], ui_passwordSet = False\<rparr>, host))
                 | Some k \<Rightarrow>
                     (case unescape (take k userinfo) encodeUserPassword of
                        Inl e \<Rightarrow> Inl e
                      | Inr n \<Rightarrow>
                        (case unescape (drop (k + 1) userinfo) encodeUserPassword of
                           Inl e \<Rightarrow> Inl e
                         | Inr p \<Rightarrow> Inr (Some \<lparr>ui_username = n, ui_password = p, ui_passwordSet = True\<rparr>, host)))))))"

definition setPath :: "URL \<Rightarrow> string \<Rightarrow> url_error + URL" where
  "setPath u p =
     map_sum id
       (\<lambda>path. u\<lparr>Path := path, RawPath := (if p = escape path encodePath then [] else p)\<rparr>)
       (unescape p encodePath)"

definition setFragment :: "URL \<Rightarrow> string \<Rightarrow> url_error + URL" where
  "setFragment u f =
     map_sum id
       (\<lambda>frag. u\<lparr>Fragment := frag, RawFragment := (if f = escape frag encodeFragment then [] else f)\<rparr>)
       (unescape f encodeFragment)"

definition Cut1 :: "string \<Rightarrow> char \<Rightarrow> string \<times> string" where
  "Cut1 s c = (takeWhile (\<lambda>x. x \<noteq> c) s, tl (dropWhile (\<lambda>x. x \<noteq> c) s))"

definition ctlByte :: "char \<Rightarrow> bool" where
  "ctlByte c \<longleftrightarrow> (of_char c :: nat) < 32 \<or> (of_char c :: nat) = 0x7F"

text \<open>The authority and the path, once scheme and query are cut off.\<close>

definition parse_rest :: "URL \<Rightarrow> string \<Rightarrow> url_error + URL" where
  "parse_rest u rest =
     (if (Scheme u \<noteq> [] \<or> \<not> HasPrefix rest ''///'') \<and> HasPrefix rest ''//'' then
        (case parseAuthority (first_segment (drop 2 rest)) of
           Inl e \<Rightarrow> Inl e
         | Inr (user, host) \<Rightarrow>
             setPath (u\<lparr>User := user, Host := host\<rparr>) (dropWhile (\<lambda>c. c \<noteq> CHR ''/'') (drop 2 rest)))
      else setPath u rest)"

definition cut_query :: "URL \<Rightarrow> string \<Rightarrow> URL \<times> string" where
  "cut_query u rest =
     (if HasSuffix rest ''?'' \<and> count_list rest CHR ''?'' = 1
      then (u\<lparr>ForceQuery := True\<rparr>, butlast rest)
      else (let (r, q) = Cut1 rest CHR ''?'' in (u\<lparr>RawQuery := q\<rparr>, r)))"

definition parse_url :: "string \<Rightarrow> url_error + URL" where
  "parse_url rawURL =
     (if list_ex ctlByte rawURL then Inl ControlCharacter
      else if rawURL = ''*'' then Inr (URL_zero\<lparr>Path := ''*''\<rparr>)
      else
        (case getScheme_from [] rawURL of
           Inl e \<Rightarrow> Inl e
         | Inr (scheme, rest) \<Rightarrow>
             (let (u, rest) = cut_query (URL_zero\<lparr>Scheme := map ToLower1 scheme\<rparr>) rest
              in if \<not> HasPrefix rest ''/'' \<and> Scheme u \<noteq> [] then Inr (u\<lparr>Opaque := rest\<rparr>)
                 else if \<not> HasPrefix rest ''/'' \<and> CHR '':'' \<in> set (first_segment rest) then Inl ColonInFirstSegment
                 else parse_rest u rest)))"

definition URL_Parse :: "string \<Rightarrow> url_error + URL" where
  "URL_Parse rawURL =
     (let (u, frag) = Cut1 rawURL CHR ''#'' in
      case parse_url u of
        Inl e \<Rightarrow> Inl e
      | Inr url \<Rightarrow> if frag = [] then Inr url else setFragment url frag)"

section \<open>Lemmas\<close>

text \<open>Percent coding can be undone, and a coded string can be split anywhere between code words.\<close>

lemma unhex_upperhex: "n < 16 \<Longrightarrow> ishex (upperhex ! n) \<and> unhex (upperhex ! n) = n"
proof -
  have "list_all (\<lambda>n. ishex (upperhex ! n) \<and> unhex (upperhex ! n) = n) [0..<16]" by code_simp
  then show "n < 16 \<Longrightarrow> ishex (upperhex ! n) \<and> unhex (upperhex ! n) = n" by (simp add: list_all_iff)
qed

lemma map_sum_Inr_iff: "map_sum id f r = Inr x \<longleftrightarrow> (\<exists>y. r = Inr y \<and> x = f y)"
  by (cases r) auto

lemma byte_hex: "char_of ((of_char c :: nat) div 16 * 16 + of_char c mod 16) = c"
  using div_mult_mod_eq [of "of_char c :: nat" 16] by simp

lemma of_char_div16: "(of_char c :: nat) div 16 < 16"
proof -
  have "(of_char c :: nat) < 256" by simp
  then show ?thesis by linarith
qed

lemma percent_escaped: "shouldEscape (CHR 0x25) encodePath" "\<not> shouldEscape (CHR ''/'') encodePath"
  by code_simp+

lemma unescape_escape_path: "unescape (escape s encodePath) encodePath = Inr s"
proof (induction s)
  case Nil
  then show ?case by simp
next
  case (Cons c s)
  show ?case
  proof (cases "shouldEscape c encodePath")
    case True
    moreover have "ishex (upperhex ! (of_char c div 16))" "unhex (upperhex ! (of_char c div 16)) = of_char c div 16"
      "ishex (upperhex ! (of_char c mod 16))" "unhex (upperhex ! (of_char c mod 16)) = of_char c mod 16"
      using unhex_upperhex of_char_div16 [of c] by simp_all
    ultimately show ?thesis using Cons.IH by (simp add: byte_hex)
  next
    case False
    then have "c \<noteq> CHR 0x25" using percent_escaped by auto
    with False Cons.IH show ?thesis by simp
  qed
qed

lemma unescape_append:
  assumes "unescape a encodePath = Inr x"
  shows "unescape (a @ b) encodePath = map_sum id ((@) x) (unescape b encodePath)"
  using assms
proof (induction a "encodePath" arbitrary: x rule: unescape.induct)
  case 1
  then show ?case by (cases "unescape b encodePath") auto
next
  case (2 c s)
  show ?case
  proof (cases "c = CHR 0x25")
    case True
    with "2.prems" obtain p q s' where s: "s = p # q # s'"
      by (auto split: list.splits)
    with "2.prems" True have hex: "ishex p" "ishex q" by (auto split: if_splits)
    with "2.prems" True s obtain y where y: "unescape s' encodePath = Inr y" "x = char_of (unhex p * 16 + unhex q) # y"
      by (auto simp: Let_def map_sum_Inr_iff)
    have "unescape (s' @ b) encodePath = map_sum id ((@) y) (unescape b encodePath)"
      using "2.hyps"(1) True s hex y(1) by simp
    with True s y hex show ?thesis by (cases "unescape b encodePath") simp_all
  next
    case False
    with "2.prems" obtain y where y: "unescape s encodePath = Inr y" "x = c # y"
      by (auto simp: map_sum_Inr_iff split: if_splits)
    with False "2.hyps"(2,3) have "unescape (s @ b) encodePath = map_sum id ((@) y) (unescape b encodePath)"
      by (cases "c = CHR ''+''") simp_all
    with False y show ?thesis by (cases "unescape b encodePath") simp_all
  qed
qed

lemma unescape_EscapedPath: "unescape (EscapedPath u) encodePath = Inr (Path u)"
  by (auto simp: EscapedPath_def unescape_escape_path)

lemma escape_append: "escape (a @ b) m = escape a m @ escape b m"
  by (induction a) auto

lemma escape_path_slashes:
  "HasSuffix (escape p encodePath) ''/'' \<longleftrightarrow> HasSuffix p ''/''"
  "HasPrefix (escape p encodePath) ''/'' \<longleftrightarrow> HasPrefix p ''/''"
proof -
  show "HasSuffix (escape p encodePath) ''/'' \<longleftrightarrow> HasSuffix p ''/''"
  proof (cases p rule: rev_cases)
    case Nil
    then show ?thesis by simp
  next
    case (snoc q c)
    have "ishex (upperhex ! (of_char c mod 16))" using unhex_upperhex by simp
    moreover have "\<not> ishex (CHR ''/'')" by code_simp
    ultimately have "upperhex ! (of_char c mod 16) \<noteq> CHR ''/''" by metis
    with snoc percent_escaped(2) show ?thesis
      by (auto simp: HasSuffix_single escape_append)
  qed
  show "HasPrefix (escape p encodePath) ''/'' \<longleftrightarrow> HasPrefix p ''/''"
    using percent_escaped(2) by (cases p) auto
qed

lemma EscapedPath_RawPath_Nil:
  "RawPath u = [] \<Longrightarrow> HasSuffix (EscapedPath u) ''/'' = HasSuffix (Path u) ''/''"
  "RawPath u = [] \<Longrightarrow> HasPrefix (EscapedPath u) ''/'' = HasPrefix (Path u) ''/''"
  by (simp_all add: EscapedPath_def escape_path_slashes HasSuffix_single [of "''*''"])

lemma unescape_slash_Cons:
  assumes "unescape p encodePath = Inr x" "HasPrefix p ''/''"
  obtains x' where "x = CHR ''/'' # x'" "unescape (drop 1 p) encodePath = Inr x'"
  using assms by (cases p; cases "unescape (drop 1 p) encodePath") auto

section \<open>References with an authority\<close>

definition host_char :: "char \<Rightarrow> bool" where
  "host_char c \<longleftrightarrow> lower_letter c \<or> upper_letter c \<or> digit c \<or> c \<in> set ''-.''"

definition path_char :: "char \<Rightarrow> bool" where
  "path_char c \<longleftrightarrow> c \<noteq> CHR ''?'' \<and> c \<noteq> CHR ''#'' \<and> \<not> ctlByte c \<and> (of_char c :: nat) < 0x80"

lemma letter_path_char: "lower_letter c \<or> upper_letter c \<or> digit c \<Longrightarrow> path_char c \<and> c \<noteq> CHR ''/'' \<and> c \<noteq> CHR 0x25 \<and> c \<noteq> CHR ''+''
   \<and> c \<notin> set ''[]:@'' "
  by (auto simp: path_char_def ctlByte_def lower_letter_def upper_letter_def digit_def)

lemma host_char_facts:
  assumes "host_char c"
  shows "path_char c" "c \<noteq> CHR ''/''" "c \<noteq> CHR 0x25" "c \<noteq> CHR ''+''" "c \<notin> set ''[]:@''" "\<not> shouldEscape c encodeHost"
proof -
  have "path_char c \<and> c \<noteq> CHR ''/'' \<and> c \<noteq> CHR 0x25 \<and> c \<noteq> CHR ''+'' \<and> c \<notin> set ''[]:@''"
    using assms letter_path_char [of c] unfolding host_char_def
    by (elim disjE) (auto simp: path_char_def ctlByte_def)
  moreover have "\<not> shouldEscape c encodeHost" using assms by (auto simp: host_char_def shouldEscape_def)
  ultimately show "path_char c" "c \<noteq> CHR ''/''" "c \<noteq> CHR 0x25" "c \<noteq> CHR ''+''" "c \<notin> set ''[]:@''" "\<not> shouldEscape c encodeHost"
    by simp_all
qed

lemma unescape_host: "list_all host_char h \<Longrightarrow> unescape h encodeHost = Inr h"
  by (induction h) (auto simp: host_char_facts)

lemma escape_host: "list_all host_char h \<Longrightarrow> escape h encodeHost = h"
  by (induction h) (auto simp: host_char_facts)

lemma parseAuthority_host:
  assumes "list_all host_char h" "h \<noteq> []"
  shows "parseAuthority h = Inr (None, h)"
proof -
  have no: "\<forall>c \<in> set h. c \<notin> set ''[]:@''" using assms host_char_facts(5) unfolding list_all_iff by blast
  then have "LastIndex1 h CHR '':'' = None" "LastIndex1 h CHR ''@'' = None" by (auto simp: LastIndex1_def)
  moreover from no have "\<not> HasPrefix h ''[''" by (cases h) auto
  ultimately show ?thesis by (simp add: parseAuthority_def parseHost_def unescape_host [OF assms(1)])
qed

lemma unreserved_path_char: "\<not> shouldEscape c encodePath \<Longrightarrow> path_char c"
  using letter_path_char [of c] by (auto simp: shouldEscape_def path_char_def ctlByte_def)

lemma hex_path_char: "n < 16 \<Longrightarrow> path_char (upperhex ! n)"
proof -
  have "list_all (\<lambda>n. path_char (upperhex ! n)) [0..<16]" by code_simp
  then show "n < 16 \<Longrightarrow> path_char (upperhex ! n)" by (simp add: list_all_iff)
qed

lemma escape_path_chars: "list_all path_char (escape p encodePath)"
proof (induction p)
  case Nil
  then show ?case by simp
next
  case (Cons c p)
  moreover have "path_char (CHR 0x25)" by code_simp
  ultimately show ?case
    using unreserved_path_char [of c] hex_path_char of_char_div16 [of c] by simp
qed

lemma EscapedPath_chars: "list_all path_char (EscapedPath u)"
proof -
  have sp: "list_all path_char [CHR ''!'', CHR ''$'', CHR ''&'', CHR 0x27, CHR ''('', CHR '')'', CHR ''*'', CHR ''+'',
      CHR '','', CHR '';'', CHR ''='', CHR '':'', CHR ''@'', CHR ''['', CHR '']'', CHR 0x25]" by code_simp
  have "validEncodedPath s \<Longrightarrow> list_all path_char s" for s
    unfolding validEncodedPath_def
    by (rule list.pred_mono_strong) (use unreserved_path_char sp [unfolded list_all_iff] in blast)+
  moreover have "list_all path_char ''*''" by code_simp
  ultimately show ?thesis by (simp add: EscapedPath_def escape_path_chars)
qed

lemma Cut1_no: "c \<notin> set s \<Longrightarrow> Cut1 s c = (s, [])"
  by (induction s) (auto simp: Cut1_def)

lemma Cut1_append: "c \<notin> set s \<Longrightarrow> Cut1 (s @ c # t) c = (s, t)"
  by (induction s) (auto simp: Cut1_def)

lemma parse_url_rooted:
  assumes "\<not> list_ex ctlByte s" "s \<noteq> ''*''" "getScheme_from [] s = Inr (sch, s1)"
    and "cut_query (URL_zero\<lparr>Scheme := map ToLower1 sch\<rparr>) s1 = (u, rest)" "HasPrefix rest ''/''"
  shows "parse_url s = parse_rest u rest"
  using assms by (simp add: parse_url_def Let_def)

lemma cut_query_split:
  assumes b: "CHR ''?'' \<notin> set b" "b \<noteq> []" and q: "q = [] \<or> HasPrefix q ''?''"
  shows "cut_query u0 (b @ q) = (if q = ''?'' then u0\<lparr>ForceQuery := True\<rparr> else u0\<lparr>RawQuery := drop 1 q\<rparr>, b)"
proof (cases q)
  case Nil
  have "last b \<in> set b" using b(2) by simp
  then have "\<not> HasSuffix b ''?''" using b(1) by (metis HasSuffix_single)
  with Nil show ?thesis using Cut1_no [OF b(1)] by (simp add: cut_query_def)
next
  case (Cons c q')
  with q have c: "c = CHR ''?''" by simp
  have count: "count_list (b @ q) CHR ''?'' = Suc (count_list q' CHR ''?'')"
    using b(1) Cons c by (simp add: count_list_0_iff)
  show ?thesis
  proof (cases "q' = []")
    case True
    have "HasSuffix (b @ q) ''?'' \<and> count_list (b @ q) CHR ''?'' = 1" using True Cons c count by (simp add: HasSuffix_single)
    then show ?thesis using True Cons c by (simp add: cut_query_def)
  next
    case False
    then have "CHR ''?'' \<in> set q'" if "HasSuffix (b @ q) ''?''" using that Cons last_in_set [OF False] by (simp add: HasSuffix_single)
    then have "\<not> (HasSuffix (b @ q) ''?'' \<and> count_list (b @ q) CHR ''?'' = 1)" using count by (auto simp: count_list_0_iff)
    moreover have "Cut1 (b @ q) CHR ''?'' = (b, q')" using Cut1_append [OF b(1), of q'] Cons c by simp
    ultimately show ?thesis using False Cons c by (simp only: cut_query_def if_False Let_def prod.case) simp
  qed
qed

lemma cut_query_base:
  assumes "CHR ''?'' \<notin> set b" "b \<noteq> []" "q = [] \<or> HasPrefix q ''?''"
  obtains u where "cut_query u0 (b @ q) = (u, b)" "Scheme u = Scheme u0"
  using cut_query_split [OF assms, of u0] that by (auto split: if_splits)

text \<open>A printed reference with an authority parses to that authority.\<close>

lemma URL_Parse_authority:
  assumes h: "h \<noteq> []" "list_all host_char h"
    and p: "HasPrefix p ''/''" "list_all path_char p" "unescape p encodePath = Inr x"
    and q: "q = [] \<or> HasPrefix q ''?''" "\<forall>c \<in> set q. c \<noteq> CHR ''#'' \<and> \<not> ctlByte c"
  shows "\<exists>u. URL_Parse (''//'' @ h @ p @ q) = Inr u \<and> Scheme u = [] \<and> Host u = h \<and> Path u = x"
proof -
  let ?b = "''//'' @ h @ p" let ?s = "?b @ q"
  have slash: "path_char (CHR ''/'')" by code_simp
  have b: "list_all path_char ?b"
    using h p slash host_char_facts(1) by (auto simp: list_all_iff)
  then have nb: "CHR ''?'' \<notin> set ?b" "CHR ''#'' \<notin> set ?b" "\<not> list_ex ctlByte ?b"
    by (auto simp: list_all_iff path_char_def list_ex_iff)
  then have ns: "CHR ''#'' \<notin> set ?s" "\<not> list_ex ctlByte ?s" using q(2) by (auto simp: list_ex_iff)
  have sch: "getScheme_from [] ?s = Inr ([], ?s)" by (simp add: lower_letter_def upper_letter_def digit_def)
  have ne: "?b \<noteq> []" by simp
  obtain u0 where split: "cut_query (URL_zero\<lparr>Scheme := map ToLower1 []\<rparr>) ?s = (u0, ?b)" and u0: "Scheme u0 = []"
    by (rule cut_query_base [OF nb(1) ne q(1), of "URL_zero\<lparr>Scheme := map ToLower1 []\<rparr>"]) simp
  have nslash: "\<forall>c \<in> set h. c \<noteq> CHR ''/''" using h(2) host_char_facts(2) by (auto simp: list_all_iff)
  obtain p' where p': "p = CHR ''/'' # p'" using p(1) by (cases p) auto
  have seg: "first_segment (h @ p) = h" "dropWhile (\<lambda>c. c \<noteq> CHR ''/'') (h @ p) = p"
    using nslash p' by (simp_all add: first_segment_def takeWhile_append2 dropWhile_append2)
  obtain c h' where ch: "h = c # h'" "c \<noteq> CHR ''/''" using h(1) nslash by (cases h) auto
  then have rest: "parse_rest u0 ?b = setPath (u0\<lparr>User := None, Host := h\<rparr>) p"
    using seg parseAuthority_host [OF h(2,1)] by (simp add: parse_rest_def u0)
  have "parse_url ?s = setPath (u0\<lparr>User := None, Host := h\<rparr>) p"
    using parse_url_rooted [OF ns(2) _ sch split] rest by simp
  then show ?thesis
    using p(3) ns(1) u0 Cut1_no [OF ns(1)] by (simp add: URL_Parse_def setPath_def)
qed

text \<open>A rooted reference without authority and fragment parses to its decoded path and its query.\<close>

lemma URL_Parse_path_query:
  assumes p: "HasPrefix p ''/''" "\<not> HasPrefix p ''//''" "list_all path_char p" "unescape p encodePath = Inr x"
    and q: "q = [] \<or> HasPrefix q ''?''" "\<forall>c \<in> set q. c \<noteq> CHR ''#'' \<and> \<not> ctlByte c"
  shows "\<exists>u. URL_Parse (p @ q) = Inr u \<and> Scheme u = [] \<and> Host u = [] \<and> Path u = x \<and> RawQuery u = drop 1 q \<and> RawPath u \<in> {[], p}"
proof -
  have n: "CHR ''?'' \<notin> set p" "CHR ''#'' \<notin> set (p @ q)" "\<not> list_ex ctlByte (p @ q)"
    using p(3) q(2) by (auto simp: list_all_iff path_char_def list_ex_iff)
  obtain p' where p': "p = CHR ''/'' # p'" using p(1) by (cases p) auto
  define u where "u = (if q = ''?'' then URL_zero\<lparr>Scheme := map ToLower1 [], ForceQuery := True\<rparr>
    else URL_zero\<lparr>Scheme := map ToLower1 [], RawQuery := drop 1 q\<rparr>)"
  have "cut_query (URL_zero\<lparr>Scheme := map ToLower1 []\<rparr>) (p @ q) = (u, p)"
    using cut_query_split [OF n(1) _ q(1)] p' by (simp add: u_def)
  moreover have "getScheme_from [] (p @ q) = Inr ([], p @ q)" by (simp add: p' lower_letter_def upper_letter_def digit_def)
  moreover have "p @ q \<noteq> ''*''" using p' by simp
  ultimately have "parse_url (p @ q) = parse_rest u p" using parse_url_rooted [OF n(3)] p(1) by blast
  then have "parse_url (p @ q) = setPath u p" using p(2) by (simp add: parse_rest_def)
  moreover have "Scheme u = []" "Host u = []" "RawQuery u = drop 1 q" by (simp_all add: u_def URL_zero_def)
  ultimately show ?thesis using p(4) Cut1_no [OF n(2)] by (simp add: URL_Parse_def setPath_def)
qed

lemma URL_Parse_path:
  assumes "HasPrefix p ''/''" "\<not> HasPrefix p ''//''" "list_all path_char p" "unescape p encodePath = Inr x"
  shows "\<exists>u. URL_Parse p = Inr u \<and> Scheme u = [] \<and> Host u = [] \<and> Path u = x \<and> RawQuery u = []"
  using URL_Parse_path_query [OF assms, of "[]"] by auto

section \<open>Schemes\<close>

lemma setPath_Scheme: "setPath u p = Inr v \<Longrightarrow> Scheme v = Scheme u"
  by (auto simp: setPath_def map_sum_Inr_iff)

lemma parse_rest_Scheme: "parse_rest u p = Inr v \<Longrightarrow> Scheme v = Scheme u"
  by (auto simp: parse_rest_def dest!: setPath_Scheme split: if_splits sum.splits)

lemma cut_query_Scheme: "cut_query u p = (v, r) \<Longrightarrow> Scheme v = Scheme u"
  by (auto simp: cut_query_def Let_def split: if_splits prod.splits)

lemma URL_Parse_http:
  assumes "URL_Parse (''http:'' @ s) = Inr v"
  shows "Scheme v = ''http''"
proof -
  let ?a = "fst (Cut1 s CHR ''#'')" and ?f = "snd (Cut1 s CHR ''#'')"
  have cut: "Cut1 (''http:'' @ s) CHR ''#'' = (''http:'' @ ?a, ?f)" by (simp add: Cut1_def)
  have sch: "getScheme_from [] (''http:'' @ ?a) = Inr (''http'', ?a)"
    by (simp add: lower_letter_def upper_letter_def digit_def)
  have low: "ToLower1 CHR ''h'' = CHR ''h''" "ToLower1 CHR ''t'' = CHR ''t''" "ToLower1 CHR ''p'' = CHR ''p''"
    by code_simp+
  obtain u r where u: "cut_query (URL_zero\<lparr>Scheme := ''http''\<rparr>) ?a = (u, r)" by fastforce
  then have us: "Scheme u = ''http''" using cut_query_Scheme [OF u] by simp
  have "Scheme w = ''http''" if "parse_url (''http:'' @ ?a) = Inr w" for w
    using that parse_rest_Scheme [of u r w] us
    unfolding parse_url_def sch by (auto simp add: low u split: if_splits simp del: getScheme_from.simps)
  then show ?thesis
    using assms unfolding URL_Parse_def Let_def cut
    by (auto simp: setFragment_def map_sum_Inr_iff simp del: append_Cons split: sum.splits if_splits)
qed

end
