(* ===== verification/DockerWatch.thy ===== *)
theory DockerWatch
  imports Config
begin

text \<open>
  The Docker watcher, \<open>src/pkg/config/dockerwatch.go\<close>, and the two operations of the vendored
  Docker client it computes with (\<open>Env.Get\<close>, \<open>Port.Port\<close>). The daemon's answers (the
  container list, an inspection, the event stream) are arguments: \<^const>\<open>Inl\<close> is the
  client's error. A map is listed in the order Go happens to iterate over it. A nil pointer is
  \<^const>\<open>None\<close>.
\<close>

record PortBinding =
  pb_HostIP :: string
  pb_HostPort :: string

record Container =
  co_Env :: "string list option"
  co_Ports :: "(string \<times> PortBinding list) list option"

record APIEvents =
  ae_Type :: string
  ae_Action :: string
  ae_ActorID :: string

datatype docker_error =
    ClientError string
  | NoPortBindings string string
  | BadPortURL url_error

section \<open>The client library\<close>

fun Env_Map :: "string list \<Rightarrow> (string \<rightharpoonup> string) \<Rightarrow> (string \<rightharpoonup> string)" where
  "Env_Map [] m = m"
| "Env_Map (kv # env) m =
     Env_Map env
       (case SplitN kv ''='' 2 of
          [k, v] \<Rightarrow> m(k \<mapsto> v)
        | parts \<Rightarrow> m(hd parts \<mapsto> []))"

definition Env_Get :: "string list \<Rightarrow> string \<Rightarrow> string" where
  "Env_Get env k = (case Env_Map env Map.empty k of None \<Rightarrow> [] | Some v \<Rightarrow> v)"

definition Port_Port :: "string \<Rightarrow> string" where
  "Port_Port p = hd (Split p CHR ''/'')"

section \<open>Events of a container\<close>

fun findBinding :: "string \<Rightarrow> (string \<times> PortBinding list) list \<Rightarrow> PortBinding option" where
  "findBinding virtPort [] = None"
| "findBinding virtPort ((port, bindings) # ports) =
     (if Port_Port port = virtPort \<and> length bindings > 0 then Some (bindings ! 0)
      else findBinding virtPort ports)"

definition getContainerEvents ::
  "string + Container \<Rightarrow> string \<Rightarrow> bool \<Rightarrow> (docker_error + ConfigEvent list) outcome" where
  "getContainerEvents inspect ident start =
     (case inspect of
        Inl e \<Rightarrow> Ret (Inl (ClientError e))
      | Inr cont \<Rightarrow>
         (case co_Env cont of
            None \<Rightarrow> Panic
          | Some env \<Rightarrow>
             (let virtHost = Env_Get env ''VIRTUAL_HOST'';
                  virtPort0 = Env_Get env ''VIRTUAL_PORT''
              in if length virtHost = 0 then Ret (Inr [])
                 else
                   (let virtPort = (if length virtPort0 = 0 then ''8080'' else virtPort0) in
                    case co_Ports cont of
                      None \<Rightarrow> Panic
                    | Some ports \<Rightarrow>
                       (case findBinding virtPort ports of
                          None \<Rightarrow> Ret (Inl (NoPortBindings virtPort ident))
                        | Some target \<Rightarrow>
                           (case URL_Parse (''http://localhost:'' @ pb_HostPort target) of
                              Inl e \<Rightarrow> Ret (Inl (BadPortURL e))
                            | Inr targetURL \<Rightarrow>
                                Ret (Inr (map (\<lambda>host. \<lparr>ev_ConfigEntry = \<lparr>ce_Hostname = host, ce_Target = targetURL\<rparr>,
                                                        ev_Up = start\<rparr>)
                                            (Fields virtHost)))))))))"

text \<open>\<open>NewDockerWatch\<close> and \<open>GetConfigEvents\<close> only fail when the client cannot be created or refuses the listener.\<close>

definition NewDockerWatch :: "string option \<Rightarrow> docker_error + unit" where
  "NewDockerWatch client = (case client of Some err \<Rightarrow> Inl (ClientError err) | None \<Rightarrow> Inr ())"

definition GetConfigEvents :: "string option \<Rightarrow> docker_error + unit" where
  "GetConfigEvents addListener = (case addListener of Some err \<Rightarrow> Inl (ClientError err) | None \<Rightarrow> Inr ())"

text \<open>\<open>GetActiveContainers\<close>: the listed containers with their inspections.\<close>

fun activeEvents :: "(string \<times> (string + Container)) list \<Rightarrow> ConfigEvent list outcome" where
  "activeEvents [] = Ret []"
| "activeEvents ((ident, inspect) # conts) =
     bind_outcome (getContainerEvents inspect ident True)
       (\<lambda>r. bind_outcome (activeEvents conts)
          (\<lambda>results. Ret ((case r of Inl e \<Rightarrow> [] | Inr events \<Rightarrow> events) @ results)))"

definition GetActiveContainers ::
  "string + (string \<times> (string + Container)) list \<Rightarrow> (docker_error + ConfigEvent list) outcome" where
  "GetActiveContainers list =
     (case list of
        Inl e \<Rightarrow> Ret (Inl (ClientError e))
      | Inr conts \<Rightarrow> bind_outcome (activeEvents conts) (\<lambda>results. Ret (Inr results)))"

text \<open>\<open>convertEvents\<close>: the batches written to the output channel for a stream of API events, each with
  the inspection made for it; one event per batch.\<close>

fun convertEvents :: "(APIEvents \<times> (string + Container)) list \<Rightarrow> ConfigEvent list list outcome" where
  "convertEvents [] = Ret []"
| "convertEvents ((e, inspect) # input) =
     (if ae_Type e \<noteq> ''container'' then convertEvents input
      else
        bind_outcome
          (if ae_Action e = ''start'' then getContainerEvents inspect (ae_ActorID e) True
           else if ae_Action e = ''stop'' then getContainerEvents inspect (ae_ActorID e) False
           else Ret (Inr []))
          (\<lambda>r. bind_outcome (convertEvents input)
             (\<lambda>out. Ret (map (\<lambda>ev. [ev]) (case r of Inl err \<Rightarrow> [] | Inr events \<Rightarrow> events) @ out))))"

section \<open>Lemmas\<close>

lemma Env_Map_append: "Env_Map (xs @ ys) m = Env_Map ys (Env_Map xs m)"
  by (induction xs arbitrary: m) auto

text \<open>The last assignment of a variable counts.\<close>

lemma Env_Get_snoc:
  assumes "CHR ''='' \<notin> set k"
  shows "Env_Get (env @ [k @ ''='' @ v]) k' = (if k' = k then v else Env_Get env k')"
proof -
  have "takeWhile (\<lambda>x. x \<noteq> CHR ''='') k = k"
    using assms by (subst takeWhile_eq_all_conv) auto
  then have "Index (k @ ''='' @ v) ''='' = Some (length k)"
    by (simp add: Index_single takeWhile_tail)
  then have "SplitN (k @ ''='' @ v) ''='' 2 = [k, v]"
    by (simp add: SplitN_2)
  then show ?thesis by (simp add: Env_Get_def Env_Map_append)
qed

lemma findBinding_Some:
  "findBinding vp ports = Some b \<Longrightarrow>
   \<exists>port bs. (port, b # bs) \<in> set ports \<and> Port_Port port = vp"
  by (induction vp ports rule: findBinding.induct) (auto split: if_splits simp: neq_Nil_conv)

lemma findBinding_None:
  "findBinding vp ports = None \<longleftrightarrow> (\<forall>(port, bs) \<in> set ports. Port_Port port = vp \<longrightarrow> bs = [])"
  by (induction vp ports rule: findBinding.induct) auto

text \<open>Start and stop of the same container give mirrored events.\<close>

lemma getContainerEvents_mirror:
  "getContainerEvents inspect ident False =
     bind_outcome (getContainerEvents inspect ident True)
       (\<lambda>r. Ret (map_sum id (map (\<lambda>e. e\<lparr>ev_Up := False\<rparr>)) r))"
  by (auto simp: getContainerEvents_def Let_def split: sum.splits option.splits)

section \<open>Properties\<close>

definition example_container :: "string list \<Rightarrow> (string \<times> PortBinding list) list \<Rightarrow> Container" where
  "example_container env ports = \<lparr>co_Env = Some env, co_Ports = Some ports\<rparr>"

text \<open>
  C26. The events of a container that names virtual hosts and publishes its virtual port (8080 unless
  \<open>VIRTUAL_PORT\<close> says otherwise) are one event per white-space separated host, all for
  \<open>http://localhost\<close> at a host port that the container publishes for that port.
\<close>
theorem getContainerEvents_hosts:
  assumes "co_Env cont = Some env" "co_Ports cont = Some ports"
    and "Env_Get env ''VIRTUAL_HOST'' \<noteq> []"
    and "vp = (if Env_Get env ''VIRTUAL_PORT'' = [] then ''8080'' else Env_Get env ''VIRTUAL_PORT'')"
    and "getContainerEvents (Inr cont) ident start = Ret (Inr evs)"
  shows "\<exists>port b bs u. (port, b # bs) \<in> set ports \<and> Port_Port port = vp \<and>
    URL_Parse (''http://localhost:'' @ pb_HostPort b) = Inr u \<and>
    evs = map (\<lambda>h. \<lparr>ev_ConfigEntry = \<lparr>ce_Hostname = h, ce_Target = u\<rparr>, ev_Up = start\<rparr>)
            (Fields (Env_Get env ''VIRTUAL_HOST''))"
proof -
  from assms obtain b u where b: "findBinding vp ports = Some b"
    and u: "URL_Parse (''http://localhost:'' @ pb_HostPort b) = Inr u"
    and evs: "evs = map (\<lambda>h. \<lparr>ev_ConfigEntry = \<lparr>ce_Hostname = h, ce_Target = u\<rparr>, ev_Up = start\<rparr>)
            (Fields (Env_Get env ''VIRTUAL_HOST''))"
    by (auto simp: getContainerEvents_def Let_def split: option.splits sum.splits if_splits)
  from findBinding_Some [OF b] u evs show ?thesis by blast
qed

theorem getContainerEvents_hosts_witness:
  "let cont = example_container [''VIRTUAL_HOST=a.com b.com'', ''VIRTUAL_PORT=80'']
        [(''443/tcp'', []), (''80/tcp'', [\<lparr>pb_HostIP = ''0.0.0.0'', pb_HostPort = ''32768''\<rparr>])];
       u = URL_zero\<lparr>Scheme := ''http'', Host := ''localhost:32768''\<rparr>;
       evs = [\<lparr>ev_ConfigEntry = \<lparr>ce_Hostname = ''a.com'', ce_Target = u\<rparr>, ev_Up = True\<rparr>,
              \<lparr>ev_ConfigEntry = \<lparr>ce_Hostname = ''b.com'', ce_Target = u\<rparr>, ev_Up = True\<rparr>]
   in getContainerEvents (Inr cont) ''c1'' True = Ret (Inr evs) \<and>
      (\<exists>u'. evs = map (\<lambda>h. \<lparr>ev_ConfigEntry = \<lparr>ce_Hostname = h, ce_Target = u'\<rparr>, ev_Up = True\<rparr>) (Fields ''a.com b.com''))"
proof -
  let ?env = "[''VIRTUAL_HOST=a.com b.com'', ''VIRTUAL_PORT=80'']"
  let ?ports = "[(''443/tcp'', []), (''80/tcp'', [\<lparr>pb_HostIP = ''0.0.0.0'', pb_HostPort = ''32768''\<rparr>])]"
  let ?u = "URL_zero\<lparr>Scheme := ''http'', Host := ''localhost:32768''\<rparr>"
  let ?evs = "[\<lparr>ev_ConfigEntry = \<lparr>ce_Hostname = ''a.com'', ce_Target = ?u\<rparr>, ev_Up = True\<rparr>,
              \<lparr>ev_ConfigEntry = \<lparr>ce_Hostname = ''b.com'', ce_Target = ?u\<rparr>, ev_Up = True\<rparr>]"
  have run: "getContainerEvents (Inr (example_container ?env ?ports)) ''c1'' True = Ret (Inr ?evs)" by code_simp
  have host: "Env_Get ?env ''VIRTUAL_HOST'' = ''a.com b.com''" "Env_Get ?env ''VIRTUAL_PORT'' = ''80''" by code_simp+
  have c: "co_Env (example_container ?env ?ports) = Some ?env" "co_Ports (example_container ?env ?ports) = Some ?ports"
    by (simp_all add: example_container_def)
  have "\<exists>port b bs u. (port, b # bs) \<in> set ?ports \<and> Port_Port port = ''80'' \<and>
    URL_Parse (''http://localhost:'' @ pb_HostPort b) = Inr u \<and>
    ?evs = map (\<lambda>h. \<lparr>ev_ConfigEntry = \<lparr>ce_Hostname = h, ce_Target = u\<rparr>, ev_Up = True\<rparr>) (Fields (Env_Get ?env ''VIRTUAL_HOST''))"
    by (rule getContainerEvents_hosts [OF c _ _ run]) (simp_all add: host)
  with run host show ?thesis by (auto simp: Let_def)
qed

text \<open>
  A stop event takes down nothing when the daemon's inspection no longer shows a published
  binding for the virtual port: the failed lookup is only logged, so the routes that the start of the
  container brought up are never removed.
\<close>
theorem stop_without_binding_keeps_routes:
  assumes "co_Env cont = Some env" "co_Ports cont = Some ports"
    and "\<forall>(port, bs) \<in> set ports. bs = []"
  shows "convertEvents [(\<lparr>ae_Type = ''container'', ae_Action = ''stop'', ae_ActorID = ident\<rparr>, Inr cont)] = Ret []"
proof -
  have none: "findBinding vp ports = None" for vp
    using assms(3) by (auto simp: findBinding_None)
  show ?thesis
  proof (cases "Env_Get env ''VIRTUAL_HOST'' = []")
    case True
    then have "getContainerEvents (Inr cont) ident False = Ret (Inr [])"
      using assms(1) by (simp add: getContainerEvents_def Let_def)
    then show ?thesis by simp
  next
    case False
    then obtain vp where "getContainerEvents (Inr cont) ident False = Ret (Inl (NoPortBindings vp ident))"
      using assms(1,2) none by (simp add: getContainerEvents_def Let_def)
    then show ?thesis by simp
  qed
qed

theorem stop_without_binding_keeps_routes_witness:
  "let up = example_container [''VIRTUAL_HOST=a.com''] [(''8080/tcp'', [\<lparr>pb_HostIP = ''0.0.0.0'', pb_HostPort = ''80''\<rparr>])];
       gone = example_container [''VIRTUAL_HOST=a.com''] [];
       start = \<lparr>ae_Type = ''container'', ae_Action = ''start'', ae_ActorID = ''c1''\<rparr>;
       stop = \<lparr>ae_Type = ''container'', ae_Action = ''stop'', ae_ActorID = ''c1''\<rparr>
   in (\<exists>ev. convertEvents [(start, Inr up)] = Ret [[ev]] \<and> ev_Up ev) \<and> convertEvents [(stop, Inr gone)] = Ret []"
proof -
  let ?up = "example_container [''VIRTUAL_HOST=a.com''] [(''8080/tcp'', [\<lparr>pb_HostIP = ''0.0.0.0'', pb_HostPort = ''80''\<rparr>])]"
  let ?gone = "example_container [''VIRTUAL_HOST=a.com''] []"
  have "convertEvents [(\<lparr>ae_Type = ''container'', ae_Action = ''start'', ae_ActorID = ''c1''\<rparr>, Inr ?up)] =
    Ret [[\<lparr>ev_ConfigEntry = \<lparr>ce_Hostname = ''a.com'', ce_Target = URL_zero\<lparr>Scheme := ''http'', Host := ''localhost:80''\<rparr>\<rparr>, ev_Up = True\<rparr>]]"
    by code_simp
  moreover have "convertEvents [(\<lparr>ae_Type = ''container'', ae_Action = ''stop'', ae_ActorID = ''c1''\<rparr>, Inr ?gone)] = Ret []"
    by (rule stop_without_binding_keeps_routes [where env = "[''VIRTUAL_HOST=a.com'']" and ports = "[]"])
      (simp_all add: example_container_def)
  ultimately show ?thesis by (auto simp: Let_def)
qed

end
