(* ===== verification/GoHTTP.thy ===== *)
theory GoHTTP
  imports GoURL GoPath
begin

text \<open>
  The parts of Go's \<open>net/http\<close> that razvhost's handlers compute with: headers with canonical keys,
  requests, and a response writer as the state it accumulates (the header map, the status
  line and header as sent, the body).
\<close>

section \<open>Headers\<close>

definition validHeaderFieldByte :: "char \<Rightarrow> bool" where
  "validHeaderFieldByte c \<longleftrightarrow>
     lower_letter c \<or> upper_letter c \<or> digit c \<or>
     c \<in> set (''!#$&*+-.^_|~'' @ [CHR 0x25, CHR 0x27, CHR 0x60])"

definition ToUpper1 :: "char \<Rightarrow> char" where
  "ToUpper1 c = (if lower_letter c then char_of ((of_char c :: nat) - 32) else c)"

fun canon_from :: "bool \<Rightarrow> string \<Rightarrow> string" where
  "canon_from upper [] = []"
| "canon_from upper (c # s) =
     (let c' = (if upper then ToUpper1 c else ToLower1 c) in c' # canon_from (c' = CHR ''-'') s)"

definition CanonicalHeaderKey :: "string \<Rightarrow> string" where
  "CanonicalHeaderKey s = (if list_all validHeaderFieldByte s then canon_from True s else s)"

type_synonym Header = "string \<Rightarrow> string list"

definition Header_Get :: "Header \<Rightarrow> string \<Rightarrow> string" where
  "Header_Get h k = (case h (CanonicalHeaderKey k) of [] \<Rightarrow> [] | v # _ \<Rightarrow> v)"

definition Header_Set :: "Header \<Rightarrow> string \<Rightarrow> string \<Rightarrow> Header" where
  "Header_Set h k v = h(CanonicalHeaderKey k := [v])"

definition Header_Add :: "Header \<Rightarrow> string \<Rightarrow> string \<Rightarrow> Header" where
  "Header_Add h k v = h(CanonicalHeaderKey k := h (CanonicalHeaderKey k) @ [v])"

definition Header_Del :: "Header \<Rightarrow> string \<Rightarrow> Header" where
  "Header_Del h k = h(CanonicalHeaderKey k := [])"

abbreviation no_headers :: Header where "no_headers \<equiv> \<lambda>_. []"

section \<open>Requests and responses\<close>

record Request =
  r_Method :: string
  r_Host :: string
  r_URL :: URL
  r_Header :: Header
  r_RemoteAddr :: string
  r_Body :: string

record Response =
  w_Header :: Header
  w_Sent :: "(nat \<times> Header) option"
  w_Body :: string

definition Response_zero :: Response where
  "Response_zero = \<lparr>w_Header = no_headers, w_Sent = None, w_Body = []\<rparr>"

abbreviation StatusOK :: nat where "StatusOK \<equiv> 200"
abbreviation StatusSeeOther :: nat where "StatusSeeOther \<equiv> 303"
abbreviation StatusForbidden :: nat where "StatusForbidden \<equiv> 403"
abbreviation StatusNotFound :: nat where "StatusNotFound \<equiv> 404"
abbreviation StatusInternalServerError :: nat where "StatusInternalServerError \<equiv> 500"

text \<open>\<open>WriteHeader\<close> sends the status and the headers as they are then; a second call has no effect.
  The first \<open>Write\<close> sends status 200 if nothing was sent.\<close>

definition WriteHeader :: "Response \<Rightarrow> nat \<Rightarrow> Response" where
  "WriteHeader w code = (if w_Sent w = None then w\<lparr>w_Sent := Some (code, w_Header w)\<rparr> else w)"

definition Write :: "Response \<Rightarrow> string \<Rightarrow> Response" where
  "Write w p = (let w1 = WriteHeader w StatusOK in w1\<lparr>w_Body := w_Body w1 @ p\<rparr>)"

definition http_Error :: "Response \<Rightarrow> string \<Rightarrow> nat \<Rightarrow> Response" where
  "http_Error w msg code =
     (let h = Header_Set (Header_Set (w_Header w) ''Content-Type'' ''text/plain; charset=utf-8'')
                ''X-Content-Type-Options'' ''nosniff''
      in Write (WriteHeader (w\<lparr>w_Header := h\<rparr>) code) (msg @ [CHR 0x0A]))"

section \<open>Answers\<close>

text \<open>What a handler does to the response writer it is given: the header map it leaves behind, the
  status it sends explicitly, if any, and the pieces of the body. The same answer has different
  effects on the plain writer (\<open>reply\<close>) and on a wrapping one.\<close>

record Answer =
  an_Header :: Header
  an_Status :: "nat option"
  an_Body :: "string list"

definition reply :: "Response \<Rightarrow> Answer \<Rightarrow> Response" where
  "reply w a =
     (let w1 = w\<lparr>w_Header := an_Header a\<rparr>;
          w2 = (case an_Status a of None \<Rightarrow> w1 | Some code \<Rightarrow> WriteHeader w1 code)
      in fold (\<lambda>p w. Write w p) (an_Body a) w2)"

definition error_answer :: "Header \<Rightarrow> string \<Rightarrow> nat \<Rightarrow> Answer" where
  "error_answer h msg code =
     \<lparr>an_Header = Header_Set (Header_Set h ''Content-Type'' ''text/plain; charset=utf-8'')
                    ''X-Content-Type-Options'' ''nosniff'',
      an_Status = Some code, an_Body = [msg @ [CHR 0x0A]]\<rparr>"

text \<open>\<open>http.Redirect\<close>: a location without scheme and host is made absolute and cleaned, keeping a
  trailing slash and the query; a \<open>GET\<close> gets a short HTML body unless a content type was set.\<close>

definition hex_digit :: "nat \<Rightarrow> char" where
  "hex_digit n = ''0123456789abcdef'' ! n"

definition hexEscapeNonASCII :: "string \<Rightarrow> string" where
  "hexEscapeNonASCII s =
     concat (map (\<lambda>c. if (of_char c :: nat) < 0x80 then [c]
                      else [CHR 0x25, hex_digit (of_char c div 16), hex_digit (of_char c mod 16)]) s)"

definition htmlEscape :: "string \<Rightarrow> string" where
  "htmlEscape s =
     concat (map (\<lambda>c. if c = CHR ''&'' then ''&amp;'' else if c = CHR ''<'' then ''&lt;''
                      else if c = CHR ''>'' then ''&gt;'' else if c = CHR 0x22 then ''&#34;''
                      else if c = CHR 0x27 then ''&#39;'' else [c]) s)"

definition path_dir :: "string \<Rightarrow> string" where
  "path_dir p = rev (dropWhile (\<lambda>c. c \<noteq> CHR ''/'') (rev p))"

definition redirect_location :: "string \<Rightarrow> string \<Rightarrow> string" where
  "redirect_location oldpath url =
     (case URL_Parse url of
        Inl e \<Rightarrow> url
      | Inr u \<Rightarrow>
         if Scheme u = [] \<and> Host u = [] then
           (let old = (if oldpath = [] then ''/'' else oldpath);
                url1 = (if HasPrefix url ''/'' then url else path_dir old @ url);
                (p, query) = (takeWhile (\<lambda>c. c \<noteq> CHR ''?'') url1, dropWhile (\<lambda>c. c \<noteq> CHR ''?'') url1);
                q = Clean p
            in (if HasSuffix p ''/'' \<and> \<not> HasSuffix q ''/'' then q @ ''/'' else q) @ query)
         else url)"

definition statusText :: "nat \<Rightarrow> string" where
  "statusText code = (if code = StatusSeeOther then ''See Other'' else [])"

definition http_Redirect :: "Request \<Rightarrow> Header \<Rightarrow> string \<Rightarrow> nat \<Rightarrow> Answer" where
  "http_Redirect r h url code =
     (let loc = redirect_location (Path (r_URL r)) url;
          hadCT = (h ''Content-Type'' \<noteq> []);
          h1 = Header_Set h ''Location'' (hexEscapeNonASCII loc);
          h2 = (if \<not> hadCT \<and> (r_Method r = ''GET'' \<or> r_Method r = ''HEAD'')
                then Header_Set h1 ''Content-Type'' ''text/html; charset=utf-8'' else h1)
      in \<lparr>an_Header = h2, an_Status = Some code,
          an_Body =
            (if \<not> hadCT \<and> r_Method r = ''GET''
             then [[CHR ''<'', CHR ''a'', CHR '' ''] @ ''href='' @ [CHR 0x22] @ htmlEscape loc @ [CHR 0x22, CHR ''>''] @
                   statusText code @ ''</a>.'' @ [CHR 0x0A, CHR 0x0A]]
             else [])\<rparr>)"

section \<open>Lemmas\<close>

lemma upper_lower_disjoint: "\<not> (upper_letter c \<and> lower_letter c)"
  by (auto simp: upper_letter_def lower_letter_def)

lemma ToUpper1_idem: "ToUpper1 (ToUpper1 c) = ToUpper1 c"
  by (auto simp: ToUpper1_def lower_letter_def)

lemma ToLower1_idem: "ToLower1 (ToLower1 c) = ToLower1 c"
  by (auto simp: ToLower1_def upper_letter_def)

lemma ToUpper1_letter: "lower_letter c \<Longrightarrow> upper_letter (ToUpper1 c)"
  by (auto simp: ToUpper1_def lower_letter_def upper_letter_def)

lemma ToLower1_letter: "upper_letter c \<Longrightarrow> lower_letter (ToLower1 c)"
  by (auto simp: ToLower1_def lower_letter_def upper_letter_def)

lemma valid_ToUpper1: "validHeaderFieldByte c \<Longrightarrow> validHeaderFieldByte (ToUpper1 c)"
  using ToUpper1_letter [of c] by (cases "lower_letter c") (auto simp: validHeaderFieldByte_def ToUpper1_def)

lemma valid_ToLower1: "validHeaderFieldByte c \<Longrightarrow> validHeaderFieldByte (ToLower1 c)"
  using ToLower1_letter [of c] by (cases "upper_letter c") (auto simp: validHeaderFieldByte_def ToLower1_def)

lemma canon_from_idem: "canon_from u (canon_from u s) = canon_from u s"
proof (induction s arbitrary: u)
  case Nil
  then show ?case by simp
next
  case (Cons c s)
  then show ?case by (cases u) (simp_all add: Let_def ToUpper1_idem ToLower1_idem)
qed

lemma valid_canon_from:
  "list_all validHeaderFieldByte s \<Longrightarrow> list_all validHeaderFieldByte (canon_from u s)"
proof (induction s arbitrary: u)
  case Nil
  then show ?case by simp
next
  case (Cons c s)
  then show ?case by (simp add: Let_def valid_ToUpper1 valid_ToLower1)
qed

lemma CanonicalHeaderKey_idem [simp]: "CanonicalHeaderKey (CanonicalHeaderKey s) = CanonicalHeaderKey s"
  by (simp add: CanonicalHeaderKey_def canon_from_idem valid_canon_from)

lemma Header_Get_Set [simp]:
  "Header_Get (Header_Set h k v) k' =
     (if CanonicalHeaderKey k = CanonicalHeaderKey k' then v else Header_Get h k')"
  by (simp add: Header_Get_def Header_Set_def)

lemma Header_Get_Del [simp]:
  "Header_Get (Header_Del h k) k' =
     (if CanonicalHeaderKey k = CanonicalHeaderKey k' then [] else Header_Get h k')"
  by (simp add: Header_Get_def Header_Del_def)

end
