(* ===== verification/Stream.thy ===== *)
theory Stream
  imports GoHTTP
begin

text \<open>
  The response rewriting of \<open>src/pkg/stream\<close>: the HTML streamer that renders a token at a time into
  the reader's buffer, the rewriting of locations, and the response writer that
  applies both. The HTML tokenizer (vendored \<open>golang.org/x/net/html\<close>) is represented by the tokens it
  returns before its final error; the token data types and \<open>EscapeString\<close> are modelled. The
  tag names the streamer tests through their atoms are tested by name.
\<close>

section \<open>Tokens\<close>

datatype TokenType = ErrorToken | TextToken | StartTagToken | EndTagToken | SelfClosingTagToken
  | CommentToken | DoctypeToken

record Attribute =
  at_Key :: string
  at_Val :: string

record Token =
  tk_Type :: TokenType
  tk_Data :: string
  tk_Attr :: "Attribute list"

definition escape1 :: "char \<Rightarrow> string" where
  "escape1 c =
     (if c = CHR ''&'' then ''&amp;''
      else if c = CHR 0x27 then ''&#39;''
      else if c = CHR ''<'' then ''&lt;''
      else if c = CHR ''>'' then ''&gt;''
      else if c = CHR 0x22 then ''&#34;''
      else if c = CHR 0x0D then ''&#13;''
      else [c])"

definition EscapeString :: "string \<Rightarrow> string" where
  "EscapeString s = concat (map escape1 s)"

definition tagString :: "Token \<Rightarrow> string" where
  "tagString t =
     tk_Data t @
     concat (map (\<lambda>a. '' '' @ at_Key a @ [CHR ''='', CHR 0x22] @ EscapeString (at_Val a) @ [CHR 0x22]) (tk_Attr t))"

fun typeToString :: "TokenType \<Rightarrow> string \<Rightarrow> string \<Rightarrow> string" where
  "typeToString ErrorToken data tag = []"
| "typeToString TextToken data tag = data"
| "typeToString StartTagToken data tag = ''<'' @ tag @ ''>''"
| "typeToString EndTagToken data tag = ''</'' @ tag @ ''>''"
| "typeToString SelfClosingTagToken data tag = ''<'' @ tag @ ''/>''"
| "typeToString CommentToken data tag = ''<!--'' @ data @ ''-->''"
| "typeToString DoctypeToken data tag = ''<!DOCTYPE '' @ data @ ''>''"

definition tokenToString :: "Token \<Rightarrow> string" where
  "tokenToString t = typeToString (tk_Type t) (tk_Data t) (tagString t)"

section \<open>The HTML streamer\<close>

text \<open>\<open>hs_tokens\<close> are the tokens the tokenizer will still return, \<open>hs_err\<close> its error after them.\<close>

record HTMLStreamer =
  hs_tokens :: "Token list"
  hs_err :: string
  hs_buffer :: string
  hs_noEscape :: int

definition NewHTMLStreamer :: "Token list \<Rightarrow> string \<Rightarrow> HTMLStreamer" where
  "NewHTMLStreamer tokens err = \<lparr>hs_tokens = tokens, hs_err = err, hs_buffer = [], hs_noEscape = 0\<rparr>"

definition no_escape_tag :: "string \<Rightarrow> bool" where
  "no_escape_tag data \<longleftrightarrow> data \<in> {''textarea'', ''title'', ''script'', ''style''}"

text \<open>The state of \<open>noEscape\<close> after a token, and the text the token is rendered to.\<close>

definition noEscape_after :: "int \<Rightarrow> Token \<Rightarrow> int" where
  "noEscape_after n t =
     (if no_escape_tag (tk_Data t) then
        (if tk_Type t = StartTagToken then n + 1 else if tk_Type t = EndTagToken then n - 1 else n)
      else n)"

definition renderToken :: "int \<Rightarrow> Token \<Rightarrow> string" where
  "renderToken n t =
     tokenToString (if tk_Type t = TextToken \<and> n \<le> 0 then t\<lparr>tk_Data := EscapeString (tk_Data t)\<rparr> else t)"

text \<open>\<open>Read\<close> into a buffer of \<open>len\<close> bytes: the bytes copied, or the tokenizer's error.\<close>

definition HTMLStreamer_Read ::
  "(Token \<Rightarrow> Token) \<Rightarrow> HTMLStreamer \<Rightarrow> nat \<Rightarrow> (string + string) \<times> HTMLStreamer" where
  "HTMLStreamer_Read modifyToken h len =
     (if hs_buffer h = [] then
        (case hs_tokens h of
           [] \<Rightarrow> (Inl (hs_err h), h)
         | t0 # ts \<Rightarrow>
            (let t = modifyToken t0;
                 n = noEscape_after (hs_noEscape h) t;
                 buffer = renderToken n t
             in (Inr (take len buffer),
                 h\<lparr>hs_tokens := ts, hs_noEscape := n, hs_buffer := drop len buffer\<rparr>)))
      else (Inr (take len (hs_buffer h)), h\<lparr>hs_buffer := drop len (hs_buffer h)\<rparr>))"

text \<open>\<open>io.Copy\<close> from the streamer: read with buffers of the given sizes until the error; \<^const>\<open>None\<close> when the
  sizes run out before.\<close>

fun copyStream :: "(Token \<Rightarrow> Token) \<Rightarrow> HTMLStreamer \<Rightarrow> nat list \<Rightarrow> (string \<times> string) option" where
  "copyStream f h [] = None"
| "copyStream f h (len # lens) =
     (case HTMLStreamer_Read f h len of
        (Inl err, h') \<Rightarrow> Some ([], err)
      | (Inr bytes, h') \<Rightarrow> map_option (\<lambda>(rest, err). (bytes @ rest, err)) (copyStream f h' lens))"

text \<open>What the streamer should produce: the rendered tokens, one after the other.\<close>

fun renderTokens :: "(Token \<Rightarrow> Token) \<Rightarrow> int \<Rightarrow> Token list \<Rightarrow> string" where
  "renderTokens f n [] = []"
| "renderTokens f n (t # ts) =
     (let t' = f t; n' = noEscape_after n t' in renderToken n' t' @ renderTokens f n' ts)"

section \<open>Rewriting locations\<close>

text \<open>The closure \<open>join\<close> of \<open>updateLocation\<close>.\<close>

definition join_slash :: "string \<Rightarrow> string \<Rightarrow> string" where
  "join_slash a b =
     (if HasSuffix a ''/'' \<and> HasPrefix b ''/'' then a @ drop 1 b
      else if \<not> HasSuffix a ''/'' \<and> \<not> HasPrefix b ''/'' then a @ ''/'' @ b
      else a @ b)"

definition updateLocation :: "string \<Rightarrow> string \<Rightarrow> string \<Rightarrow> string \<Rightarrow> string" where
  "updateLocation loc hostname hostPath targetPath =
     (case URL_Parse loc of
        Inl e \<Rightarrow> loc
      | Inr u \<Rightarrow>
         if length (Host u) > 0 \<and> Host u \<noteq> hostname then loc
         else
           (let loc1 = (if length (Host u) > 0 then RequestURI u else loc) in
            if HasPrefix loc1 ''/'' then join_slash hostPath (TrimPrefix loc1 targetPath) else loc1))"

definition location_attr :: "string \<Rightarrow> bool" where
  "location_attr k \<longleftrightarrow> k \<in> {''href'', ''src'', ''action'', ''formaction''}"

text \<open>The token modifier that \<open>NewPathPrefixHTMLStreamer\<close> installs.\<close>

definition modifyToken :: "string \<Rightarrow> string \<Rightarrow> string \<Rightarrow> Token \<Rightarrow> Token" where
  "modifyToken hostname hostPath targetPath t =
     (if tk_Type t \<noteq> StartTagToken \<and> tk_Type t \<noteq> SelfClosingTagToken then t
      else t\<lparr>tk_Attr := map (\<lambda>a. if location_attr (at_Key a)
                                  then a\<lparr>at_Val := updateLocation (at_Val a) hostname hostPath targetPath\<rparr> else a)
                           (tk_Attr t)\<rparr>)"

section \<open>The response writer\<close>

text \<open>\<open>pw_piped\<close> is what was written to the pipe; the copying goroutine has rendered all of it when \<open>Close\<close>
  returns. \<open>detect\<close> is \<open>http.DetectContentType\<close>, \<open>tokenize\<close> the tokenizer.\<close>

record pathPrefixWriter =
  pw_w :: Response
  pw_piped :: string
  pw_hostname :: string
  pw_hostPath :: string
  pw_targetPath :: string
  pw_isHTML :: bool
  pw_headerSent :: bool

definition NewPathPrefixHTMLResponseWriter :: "string \<Rightarrow> string \<Rightarrow> string \<Rightarrow> Response \<Rightarrow> pathPrefixWriter" where
  "NewPathPrefixHTMLResponseWriter hostname hostPath targetPath w =
     \<lparr>pw_w = w, pw_piped = [], pw_hostname = hostname, pw_hostPath = hostPath, pw_targetPath = targetPath,
      pw_isHTML = False, pw_headerSent = False\<rparr>"

definition pathPrefix_WriteHeader :: "pathPrefixWriter \<Rightarrow> nat \<Rightarrow> pathPrefixWriter" where
  "pathPrefix_WriteHeader pw statusCode =
     (let h = w_Header (pw_w pw);
          location = Header_Get h ''Location'';
          h1 = (if length location > 0
                then Header_Set h ''Location''
                       (updateLocation location (pw_hostname pw) (pw_hostPath pw) (pw_targetPath pw))
                else h);
          html = HasPrefix (Header_Get h1 ''Content-Type'') ''text/html'';
          h2 = (if html then Header_Del h1 ''Content-Length'' else h1)
      in pw\<lparr>pw_headerSent := True, pw_isHTML := (pw_isHTML pw \<or> html),
            pw_w := WriteHeader ((pw_w pw)\<lparr>w_Header := h2\<rparr>) statusCode\<rparr>)"

definition pathPrefix_Write :: "(string \<Rightarrow> string) \<Rightarrow> pathPrefixWriter \<Rightarrow> string \<Rightarrow> pathPrefixWriter" where
  "pathPrefix_Write detect pw p =
     (let pw1 =
        (if \<not> pw_headerSent pw then
           pathPrefix_WriteHeader
             (pw\<lparr>pw_w := (pw_w pw)\<lparr>w_Header := Header_Set (w_Header (pw_w pw)) ''Content-Type'' (detect p)\<rparr>\<rparr>) StatusOK
         else pw)
      in if pw_isHTML pw1 then pw1\<lparr>pw_piped := pw_piped pw1 @ p\<rparr>
         else pw1\<lparr>pw_w := Write (pw_w pw1) p\<rparr>)"

definition pathPrefix_Close :: "(string \<Rightarrow> Token list) \<Rightarrow> pathPrefixWriter \<Rightarrow> Response" where
  "pathPrefix_Close tokenize pw =
     (let out = renderTokens (modifyToken (pw_hostname pw) (pw_hostPath pw) (pw_targetPath pw)) 0
                  (tokenize (pw_piped pw))
      in if out = [] then pw_w pw else Write (pw_w pw) out)"

text \<open>A handler that sends a status (or leaves that to the first write), writes the response in the
  pieces \<open>ps\<close> and returns; the deferred \<open>Close\<close> then runs.\<close>

definition pathPrefix_respond ::
  "(string \<Rightarrow> string) \<Rightarrow> (string \<Rightarrow> Token list) \<Rightarrow> pathPrefixWriter \<Rightarrow> nat option \<Rightarrow> string list \<Rightarrow> Response" where
  "pathPrefix_respond detect tokenize pw status ps =
     pathPrefix_Close tokenize
       (fold (\<lambda>p pw. pathPrefix_Write detect pw p) ps
          (case status of None \<Rightarrow> pw | Some code \<Rightarrow> pathPrefix_WriteHeader pw code))"

section \<open>Escaping\<close>

lemma escape1_safe: "c \<in> set (escape1 d) \<Longrightarrow> c \<notin> {CHR ''<'', CHR ''>'', CHR 0x22, CHR 0x27, CHR 0x0D}"
  by (auto simp: escape1_def split: if_splits)

lemma EscapeString_safe: "c \<in> set (EscapeString s) \<Longrightarrow> c \<notin> {CHR ''<'', CHR ''>'', CHR 0x22, CHR 0x27, CHR 0x0D}"
  using escape1_safe by (auto simp: EscapeString_def)

lemma EscapeString_Cons: "EscapeString (c # s) = escape1 c @ EscapeString s"
  by (simp add: EscapeString_def)

lemma EscapeString_Nil_iff: "EscapeString s = [] \<longleftrightarrow> s = []"
  by (cases s) (auto simp: EscapeString_def escape1_def)

text \<open>The code words of distinct bytes are never prefixes of one another, so the code is uniquely decodable.\<close>

lemma escape1_prefix_free: "escape1 c @ s = escape1 d @ t \<Longrightarrow> c = d \<and> s = t"
  by (auto simp: escape1_def split: if_splits)

lemma EscapeString_inj: "EscapeString s = EscapeString t \<Longrightarrow> s = t"
proof (induction s arbitrary: t)
  case Nil
  then show ?case by (metis EscapeString_Nil_iff)
next
  case (Cons c s)
  then obtain d t' where t: "t = d # t'"
    by (cases t) (auto simp: EscapeString_def escape1_def split: if_splits)
  with Cons.prems have "c = d \<and> EscapeString s = EscapeString t'"
    by (intro escape1_prefix_free) (simp add: EscapeString_Cons)
  with Cons.IH t show ?case by simp
qed

section \<open>Streaming\<close>

text \<open>What is still to come out of a streamer.\<close>

definition pending :: "(Token \<Rightarrow> Token) \<Rightarrow> HTMLStreamer \<Rightarrow> string" where
  "pending f h = hs_buffer h @ renderTokens f (hs_noEscape h) (hs_tokens h)"

lemma Read_pending:
  assumes "HTMLStreamer_Read f h len = (Inr bytes, h')"
  shows "pending f h = bytes @ pending f h'"
  using assms
  by (auto simp: HTMLStreamer_Read_def pending_def Let_def split: if_splits list.splits)

lemma Read_error:
  assumes "HTMLStreamer_Read f h len = (Inl err, h')"
  shows "pending f h = [] \<and> err = hs_err h"
  using assms
  by (auto simp: HTMLStreamer_Read_def pending_def Let_def split: if_splits list.splits)

lemma Read_err_field: "hs_err (snd (HTMLStreamer_Read f h len)) = hs_err h"
  by (auto simp: HTMLStreamer_Read_def Let_def split: list.splits)

text \<open>A measure that every successful read with a non-empty buffer decreases.\<close>

definition work :: "(Token \<Rightarrow> Token) \<Rightarrow> HTMLStreamer \<Rightarrow> nat" where
  "work f h = length (pending f h) + length (hs_tokens h)"

lemma Read_work:
  assumes "HTMLStreamer_Read f h len = (Inr bytes, h')" "0 < len"
  shows "work f h' < work f h"
  using assms
  by (auto simp: HTMLStreamer_Read_def pending_def work_def Let_def split: if_splits list.splits)

lemma copyStream_pending:
  assumes "\<forall>len \<in> set lens. 0 < len" "work f h < length lens"
  shows "copyStream f h lens = Some (pending f h, hs_err h)"
  using assms
proof (induction lens arbitrary: h)
  case Nil
  then show ?case by simp
next
  case (Cons len lens)
  obtain r h' where r: "HTMLStreamer_Read f h len = (r, h')" by fastforce
  show ?case
  proof (cases r)
    case (Inl err)
    with r show ?thesis using Read_error [of f h len err h'] by simp
  next
    case (Inr bytes)
    with r Cons.prems have "work f h' < work f h" by (intro Read_work) auto
    with Cons.prems have "copyStream f h' lens = Some (pending f h', hs_err h')"
      by (intro Cons.IH) auto
    moreover have "hs_err h' = hs_err h" using Read_err_field [of f h len] r by simp
    ultimately show ?thesis
      using r Inr Read_pending [of f h len bytes h'] by simp
  qed
qed

lemma pending_New: "pending f (NewHTMLStreamer ts err) = renderTokens f 0 ts"
  by (simp add: pending_def NewHTMLStreamer_def)

text \<open>
  C15. Streaming does not depend on how the reader is called. Whatever positive buffer sizes
  \<open>io.Copy\<close> uses, it ends after at most one read per output byte and token, and the bytes it has
  received are the rendered tokens in order, each rewritten and escaped according to the
  elements that are open before it; the error it ends with is the tokenizer's.
\<close>
theorem HTMLStreamer_copies_tokens:
  assumes "\<forall>len \<in> set lens. 0 < len"
    and "length (renderTokens f 0 ts) + length ts < length lens"
  shows "copyStream f (NewHTMLStreamer ts err) lens = Some (renderTokens f 0 ts, err)"
proof -
  have "work f (NewHTMLStreamer ts err) < length lens"
    using assms(2) by (simp add: work_def pending_New) (simp add: NewHTMLStreamer_def)
  with assms(1) have "copyStream f (NewHTMLStreamer ts err) lens =
      Some (pending f (NewHTMLStreamer ts err), hs_err (NewHTMLStreamer ts err))"
    by (intro copyStream_pending) auto
  then show ?thesis by (simp add: pending_New) (simp add: NewHTMLStreamer_def)
qed

definition link_token :: "string \<Rightarrow> Token" where
  "link_token loc = \<lparr>tk_Type = StartTagToken, tk_Data = ''a'', tk_Attr = [\<lparr>at_Key = ''href'', at_Val = loc\<rparr>]\<rparr>"

definition text_token :: "string \<Rightarrow> Token" where
  "text_token d = \<lparr>tk_Type = TextToken, tk_Data = d, tk_Attr = []\<rparr>"

theorem HTMLStreamer_copies_tokens_witness:
  "copyStream (modifyToken ''h'' ''/app'' ''/'') (NewHTMLStreamer [link_token ''/x'', text_token ''a<b''] ''EOF'')
     (replicate 30 3) = Some ([CHR ''<'', CHR ''a'', CHR '' ''] @ ''href='' @ [CHR 0x22] @ ''/app/x'' @ [CHR 0x22] @ ''>a&lt;b'', ''EOF'')"
proof -
  have r: "renderTokens (modifyToken ''h'' ''/app'' ''/'') 0 [link_token ''/x'', text_token ''a<b''] =
      [CHR ''<'', CHR ''a'', CHR '' ''] @ ''href='' @ [CHR 0x22] @ ''/app/x'' @ [CHR 0x22] @ ''>a&lt;b''"
    by code_simp
  then have n: "length (renderTokens (modifyToken ''h'' ''/app'' ''/'') 0 [link_token ''/x'', text_token ''a<b'']) = 23"
    unfolding r by simp
  show ?thesis
    using HTMLStreamer_copies_tokens [of "replicate 30 3" "modifyToken ''h'' ''/app'' ''/''"
        "[link_token ''/x'', text_token ''a<b'']" "''EOF''"] n r
    by simp
qed

lemma quotes_in_attributes:
  "\<forall>a \<in> set as. CHR 0x22 \<notin> set (at_Key a) \<Longrightarrow>
   count_list (concat (map (\<lambda>a. '' '' @ at_Key a @ [CHR ''='', CHR 0x22] @ EscapeString (at_Val a) @ [CHR 0x22]) as))
     (CHR 0x22) = 2 * length as"
proof (induction as)
  case Nil
  then show ?case by simp
next
  case (Cons a as)
  have "CHR 0x22 \<notin> set (EscapeString (at_Val a))" using EscapeString_safe by blast
  with Cons show ?case by (simp add: count_list_0_iff)
qed

text \<open>
  C25. Text and attribute values stay text. Outside the four elements whose text is copied raw, the
  rendering of a text token holds no markup character, and distinct texts are rendered
  differently, so nothing is lost; in a tag whose name and attribute names hold no quote, the
  only quotes are the two around each attribute value, whatever the values are rewritten to.
\<close>
theorem escaping_is_safe_and_faithful:
  assumes "n \<le> 0" and "CHR 0x22 \<notin> set (tk_Data t)" "\<forall>a \<in> set (tk_Attr t). CHR 0x22 \<notin> set (at_Key a)"
  shows "set (renderToken n (text_token d)) \<inter> {CHR ''<'', CHR ''>'', CHR 0x22, CHR 0x27, CHR 0x0D} = {} \<and>
    (renderToken n (text_token d) = renderToken n (text_token d') \<longleftrightarrow> d = d') \<and>
    count_list (tagString t) (CHR 0x22) = 2 * length (tk_Attr t)"
proof (intro conjI)
  have r: "renderToken n (text_token x) = EscapeString x" for x
    using assms(1) by (simp add: renderToken_def text_token_def tokenToString_def)
  show "set (renderToken n (text_token d)) \<inter> {CHR ''<'', CHR ''>'', CHR 0x22, CHR 0x27, CHR 0x0D} = {}"
    using EscapeString_safe unfolding r by blast
  show "renderToken n (text_token d) = renderToken n (text_token d') \<longleftrightarrow> d = d'"
    using EscapeString_inj unfolding r by blast
  show "count_list (tagString t) (CHR 0x22) = 2 * length (tk_Attr t)"
    using assms(2) quotes_in_attributes [OF assms(3)] by (simp add: tagString_def count_list_0_iff)
qed

theorem escaping_is_safe_and_faithful_witness:
  "set (renderToken 0 (text_token ''a<b'')) \<inter> {CHR ''<'', CHR ''>'', CHR 0x22, CHR 0x27, CHR 0x0D} = {} \<and>
   renderToken 0 (text_token ''a<b'') \<noteq> renderToken 0 (text_token ''a&lt;b'') \<and>
   count_list (tagString (link_token [CHR 0x22])) (CHR 0x22) = 2"
  using escaping_is_safe_and_faithful [of 0 "link_token [CHR 0x22]" "''a<b''" "''a&lt;b''"]
  by (simp add: link_token_def)

text \<open>
  Raw text. Inside \<open>title\<close>, \<open>textarea\<close>, \<open>script\<close> and \<open>style\<close> the streamer copies the data of a text token,
  and for comments it always does. The tokenizer hands over \<open>title\<close>, \<open>textarea\<close> and comment data with
  its character references already replaced, so for these the output differs from the input
  whenever the data holds a markup character: the escaped form that was parsed is not restored.
\<close>
theorem raw_text_is_not_escaped:
  assumes "el \<in> {''title'', ''textarea''}"
  shows "renderTokens (modifyToken hn hp tp) 0
     [\<lparr>tk_Type = StartTagToken, tk_Data = el, tk_Attr = []\<rparr>, text_token d,
      \<lparr>tk_Type = EndTagToken, tk_Data = el, tk_Attr = []\<rparr>, \<lparr>tk_Type = CommentToken, tk_Data = c, tk_Attr = []\<rparr>, text_token d'] =
     ''<'' @ el @ ''>'' @ d @ ''</'' @ el @ ''>'' @ ''<!--'' @ c @ ''-->'' @ EscapeString d'"
proof -
  have "no_escape_tag el" using assms by (auto simp: no_escape_tag_def)
  then show ?thesis
    by (simp add: modifyToken_def text_token_def noEscape_after_def renderToken_def tokenToString_def tagString_def Let_def)
qed

theorem raw_text_is_not_escaped_witness:
  "renderTokens (modifyToken [] ''/app'' ''/'') 0
     [\<lparr>tk_Type = StartTagToken, tk_Data = ''title'', tk_Attr = []\<rparr>, text_token ''</title><script>'',
      \<lparr>tk_Type = EndTagToken, tk_Data = ''title'', tk_Attr = []\<rparr>, \<lparr>tk_Type = CommentToken, tk_Data = ''--><b>'', tk_Attr = []\<rparr>,
      text_token ''<''] = ''<title></title><script></title><!----><b>-->&lt;''"
  using raw_text_is_not_escaped [of "''title''" "[]" "''/app''" "''/''" "''</title><script>''" "''--><b>''" "''<''"]
  by (simp add: EscapeString_def escape1_def)

section \<open>The response writer\<close>

lemma Write_sent: "w_Sent w \<noteq> None \<Longrightarrow> Write w p = w\<lparr>w_Body := w_Body w @ p\<rparr>"
  by (simp add: Write_def WriteHeader_def)

lemma writes_html:
  assumes "pw_headerSent pw" "pw_isHTML pw"
  shows "fold (\<lambda>p pw. pathPrefix_Write detect pw p) ps pw = pw\<lparr>pw_piped := pw_piped pw @ concat ps\<rparr>"
  using assms by (induction ps arbitrary: pw) (simp_all add: pathPrefix_Write_def)

lemma writes_plain:
  assumes "pw_headerSent pw" "\<not> pw_isHTML pw" "w_Sent (pw_w pw) \<noteq> None"
  shows "fold (\<lambda>p pw. pathPrefix_Write detect pw p) ps pw =
     pw\<lparr>pw_w := (pw_w pw)\<lparr>w_Body := w_Body (pw_w pw) @ concat ps\<rparr>\<rparr>"
  using assms by (induction ps arbitrary: pw) (simp_all add: pathPrefix_Write_def Write_sent)

text \<open>The header that \<open>WriteHeader\<close> sends.\<close>

definition rewritten_header :: "string \<Rightarrow> string \<Rightarrow> string \<Rightarrow> Header \<Rightarrow> Header" where
  "rewritten_header hn hp tp h =
     (let h1 = (if Header_Get h ''Location'' = [] then h
                else Header_Set h ''Location'' (updateLocation (Header_Get h ''Location'') hn hp tp))
      in if HasPrefix (Header_Get h ''Content-Type'') ''text/html'' then Header_Del h1 ''Content-Length'' else h1)"

lemma header_keys [simp]:
  "CanonicalHeaderKey ''Location'' = ''Location''"
  "CanonicalHeaderKey ''Content-Type'' = ''Content-Type''"
  "CanonicalHeaderKey ''Content-Length'' = ''Content-Length''"
  by code_simp+

lemma WriteHeader_fresh:
  assumes "w_Sent w = None"
  shows "pathPrefix_WriteHeader (NewPathPrefixHTMLResponseWriter hn hp tp w) code =
     (NewPathPrefixHTMLResponseWriter hn hp tp
        (w\<lparr>w_Header := rewritten_header hn hp tp (w_Header w), w_Sent := Some (code, rewritten_header hn hp tp (w_Header w))\<rparr>))
     \<lparr>pw_headerSent := True, pw_isHTML := HasPrefix (Header_Get (w_Header w) ''Content-Type'') ''text/html''\<rparr>"
  using assms
  by (simp add: pathPrefix_WriteHeader_def NewPathPrefixHTMLResponseWriter_def rewritten_header_def Let_def WriteHeader_def)

lemma respond_explicit:
  assumes "w_Sent w = None" and "tokenize [] = []"
  shows "pathPrefix_respond detect tokenize (NewPathPrefixHTMLResponseWriter hn hp tp w) (Some code) ps =
     w\<lparr>w_Header := rewritten_header hn hp tp (w_Header w),
       w_Sent := Some (code, rewritten_header hn hp tp (w_Header w)),
       w_Body := w_Body w @ (if HasPrefix (Header_Get (w_Header w) ''Content-Type'') ''text/html''
                             then renderTokens (modifyToken hn hp tp) 0 (tokenize (concat ps)) else concat ps)\<rparr>"
proof -
  define pw where "pw = pathPrefix_WriteHeader (NewPathPrefixHTMLResponseWriter hn hp tp w) code"
  note fresh = pw_def [unfolded WriteHeader_fresh [OF assms(1)]]
  have f: "pw_headerSent pw" "pw_isHTML pw = HasPrefix (Header_Get (w_Header w) ''Content-Type'') ''text/html''"
    "w_Sent (pw_w pw) \<noteq> None" "pw_piped pw = []" "pw_hostname pw = hn" "pw_hostPath pw = hp" "pw_targetPath pw = tp"
    "pw_w pw = w\<lparr>w_Header := rewritten_header hn hp tp (w_Header w), w_Sent := Some (code, rewritten_header hn hp tp (w_Header w))\<rparr>"
    unfolding fresh by (simp_all add: NewPathPrefixHTMLResponseWriter_def)
  show ?thesis
  proof (cases "pw_isHTML pw")
    case True
    with f have "fold (\<lambda>p pw. pathPrefix_Write detect pw p) ps pw = pw\<lparr>pw_piped := concat ps\<rparr>"
      by (simp add: writes_html)
    with True f show ?thesis
      by (simp add: pathPrefix_respond_def pw_def [symmetric] pathPrefix_Close_def Write_sent Let_def)
  next
    case False
    with f have "fold (\<lambda>p pw. pathPrefix_Write detect pw p) ps pw =
        pw\<lparr>pw_w := (pw_w pw)\<lparr>w_Body := w_Body (pw_w pw) @ concat ps\<rparr>\<rparr>"
      by (intro writes_plain) auto
    with False f assms(2) show ?thesis
      by (simp add: pathPrefix_respond_def pw_def [symmetric] pathPrefix_Close_def Let_def)
  qed
qed

text \<open>
  C22. What a wrapped handler's response becomes. When it sends a status and then writes any pieces,
  the status is kept, the \<open>Location\<close> header is rewritten, and: an HTML response loses its
  \<open>Content-Length\<close> and its body is the rewritten rendering of the tokens of the joined pieces; any
  other response keeps its length header and its body byte for byte.
\<close>
theorem pathPrefix_response:
  assumes "w_Sent w = None" and "tokenize [] = []"
  shows "let out = pathPrefix_respond detect tokenize (NewPathPrefixHTMLResponseWriter hn hp tp w) (Some code) ps;
             html = HasPrefix (Header_Get (w_Header w) ''Content-Type'') ''text/html''
         in w_Sent out = Some (code, rewritten_header hn hp tp (w_Header w)) \<and>
            w_Body out = w_Body w @ (if html then renderTokens (modifyToken hn hp tp) 0 (tokenize (concat ps)) else concat ps) \<and>
            Header_Get (w_Header out) ''Content-Length'' = (if html then [] else Header_Get (w_Header w) ''Content-Length'')"
  using assms by (simp add: respond_explicit Let_def) (simp add: rewritten_header_def Let_def)

definition html_response :: Response where
  "html_response = Response_zero\<lparr>w_Header := Header_Set (Header_Set no_headers ''Content-Type'' ''text/html'')
     ''Content-Length'' ''5''\<rparr>"

theorem pathPrefix_response_witness:
  "w_Body (pathPrefix_respond (\<lambda>_. []) (\<lambda>s. if s = [] then [] else [text_token s])
     (NewPathPrefixHTMLResponseWriter ''h'' ''/app'' ''/'' html_response) (Some 200) [''a<'', ''b'']) = ''a&lt;b'' \<and>
   w_Body (pathPrefix_respond (\<lambda>_. []) (\<lambda>s. if s = [] then [] else [text_token s])
     (NewPathPrefixHTMLResponseWriter ''h'' ''/app'' ''/'' Response_zero) (Some 200) [''a<'', ''b'']) = ''a<b''"
proof -
  let ?tk = "\<lambda>s. if s = [] then [] else [text_token s]"
  have r: "renderTokens (modifyToken ''h'' ''/app'' ''/'') 0 [text_token ''a<b''] = ''a&lt;b''"
    by code_simp
  have "HasPrefix (Header_Get (w_Header html_response) ''Content-Type'') ''text/html''"
    "w_Sent html_response = None" "w_Body html_response = []"
    by (simp_all add: html_response_def Response_zero_def)
  then show ?thesis
    using pathPrefix_response [of html_response ?tk "\<lambda>_. []" "''h''" "''/app''" "''/''" 200 "[''a<'', ''b'']"]
      pathPrefix_response [of Response_zero ?tk "\<lambda>_. []" "''h''" "''/app''" "''/''" 200 "[''a<'', ''b'']"] r
    by (simp add: Response_zero_def Header_Get_def Let_def)
qed

text \<open>On a fresh writer, the wrapping writer sends nothing, when there is nothing to send, or a status with the header it leaves behind.\<close>

lemma respond_implicit:
  "pathPrefix_respond detect tokenize (NewPathPrefixHTMLResponseWriter hn hp tp w) None (p # ps) =
     pathPrefix_respond detect tokenize
       (NewPathPrefixHTMLResponseWriter hn hp tp (w\<lparr>w_Header := Header_Set (w_Header w) ''Content-Type'' (detect p)\<rparr>)) (Some 200) (p # ps)"
  by (simp add: pathPrefix_respond_def pathPrefix_Write_def NewPathPrefixHTMLResponseWriter_def Let_def pathPrefix_WriteHeader_def)

lemma respond_sent:
  assumes "w_Sent w = None" "tokenize [] = []"
    and "out = pathPrefix_respond detect tokenize (NewPathPrefixHTMLResponseWriter hn hp tp w) status ps"
  shows "case w_Sent out of None \<Rightarrow> w_Body out = w_Body w | Some (code, h) \<Rightarrow> w_Header out = h"
proof (cases status)
  case (Some code)
  with assms show ?thesis by (simp add: respond_explicit)
next
  case None
  show ?thesis
  proof (cases ps)
    case Nil
    with None assms show ?thesis
      by (simp add: pathPrefix_respond_def pathPrefix_Close_def NewPathPrefixHTMLResponseWriter_def)
  next
    case (Cons p qs)
    with None assms show ?thesis by (simp add: respond_implicit respond_explicit)
  qed
qed

text \<open>
  A handler that writes without sending a status first loses the \<open>Content-Type\<close> it has set: the
  writer replaces it by the detected type, which also decides whether the body is rewritten.
\<close>
theorem implicit_status_overrides_content_type:
  assumes "w_Sent w = None" and "tokenize [] = []"
  shows "\<exists>h. w_Sent (pathPrefix_respond detect tokenize (NewPathPrefixHTMLResponseWriter hn hp tp w) None (p # ps)) = Some (200, h)
     \<and> Header_Get h ''Content-Type'' = detect p"
proof -
  show ?thesis using assms by (simp add: respond_implicit respond_explicit) (simp add: rewritten_header_def Let_def)
qed

theorem implicit_status_overrides_content_type_witness:
  "\<exists>h. w_Sent (pathPrefix_respond (\<lambda>_. ''text/plain'') (\<lambda>_. [])
      (NewPathPrefixHTMLResponseWriter [] ''/app'' ''/'' html_response) None [''x'']) = Some (200, h)
     \<and> Header_Get h ''Content-Type'' = ''text/plain''"
  using implicit_status_overrides_content_type [of html_response "\<lambda>_. []" "\<lambda>_. ''text/plain''" "[]" "''/app''" "''/''" "''x''" "[]"]
  by (simp add: html_response_def Response_zero_def)

end
