(* ===== verification/Handlers.thy ===== *)
theory Handlers
  imports Stream
begin

text \<open>
  The handlers of \<open>src/pkg/handler\<close>. A constructed handler is a value of \<open>Handler\<close>, which holds what the
  Go closure captures; the factory builds it from a hostname and a target URL, and the
  serving functions run it on a request. The outside world enters as parameters: the file
  system and the AWS session for construction (\<open>OS\<close>), the answers of the proxied
  server, of file serving, of the FastCGI client and of the embedded assets for serving (\<open>Backends\<close>).
\<close>

section \<open>Joining paths\<close>

definition singleJoiningSlash :: "string \<Rightarrow> string \<Rightarrow> string" where
  "singleJoiningSlash a b =
     (let aslash = HasSuffix a ''/''; bslash = HasPrefix b ''/'' in
      if aslash \<and> bslash then a @ drop 1 b
      else if \<not> aslash \<and> \<not> bslash then a @ ''/'' @ b
      else a @ b)"

definition joinURLPath :: "URL \<Rightarrow> URL \<Rightarrow> (string \<times> string) outcome" where
  "joinURLPath a b =
     (if RawPath a = [] \<and> RawPath b = [] then Ret (singleJoiningSlash (Path a) (Path b), [])
      else
        (let apath = EscapedPath a; bpath = EscapedPath b;
             aslash = HasSuffix apath ''/''; bslash = HasPrefix bpath ''/'' in
         if aslash \<and> bslash then
           (case Path b of [] \<Rightarrow> Panic | _ # p \<Rightarrow> Ret (Path a @ p, apath @ drop 1 bpath))
         else if \<not> aslash \<and> \<not> bslash then Ret (Path a @ ''/'' @ Path b, apath @ ''/'' @ bpath)
         else Ret (Path a @ Path b, apath @ bpath)))"

definition joinQuery :: "string \<Rightarrow> string \<Rightarrow> string" where
  "joinQuery targetQuery q = (if targetQuery = [] \<or> q = [] then targetQuery @ q else targetQuery @ ''&'' @ q)"

section \<open>Constructed handlers\<close>

record s3FS =
  s3_credentials :: "(string \<times> string) option"
  s3_endpoint :: "string option"
  s3_region :: "string option"
  s3_bucket :: string
  s3_prefix :: string

record sftpFS =
  sf_hostname :: string
  sf_User :: string
  sf_Auth :: "string list"
  sf_dir :: string

datatype FileSystem = Directory string | S3 s3FS | Sftp sftpFS

datatype Whence = SeekStart | SeekEnd

text \<open>The session handlers of \<open>gofast\<close>, with the network and the address of the FastCGI server.\<close>

datatype PHPSession = PHPFS string | FileEndpoint string

datatype BaseHandler =
    ServeFile string
  | FileServer FileSystem
  | ReverseProxy URL
  | Redirect URL
  | PHP PHPSession "string \<times> string"

datatype Handler =
    PathCombinations BaseHandler string string string
  | GoWasm string string
  | Tail string Whence

datatype factory_error =
    UnknownScheme string
  | PHPNotConfigured
  | OSError string
  | SubInvalidName string

record OS =
  os_Stat :: "string \<Rightarrow> string + bool"
  os_Getwd :: "string + string"
  aws_NewSession :: "(string \<times> string) option \<Rightarrow> string option \<Rightarrow> string option \<Rightarrow> string option"

section \<open>The factory\<close>

text \<open>\<open>os_Stat\<close> answers whether a path is a directory, or an error; \<open>aws_NewSession\<close> an error, if any.\<close>

definition splitHostnameAndPath :: "string \<Rightarrow> string \<times> string" where
  "splitHostnameAndPath hostname =
     (case Index hostname ''/'' of None \<Rightarrow> (hostname, []) | Some i \<Rightarrow> (take i hostname, drop i hostname))"

definition newFileServer :: "OS \<Rightarrow> string \<Rightarrow> string \<Rightarrow> string \<Rightarrow> Handler" where
  "newFileServer os hostname hostPath dir =
     PathCombinations
       (case os_Stat os dir of
          Inr isDir \<Rightarrow> if \<not> isDir then ServeFile dir else FileServer (Directory dir)
        | Inl err \<Rightarrow> FileServer (Directory dir))
       hostname hostPath []"

definition newProxyHandler :: "string \<Rightarrow> string \<Rightarrow> URL \<Rightarrow> Handler" where
  "newProxyHandler hostname hostPath target = PathCombinations (ReverseProxy target) hostname hostPath (Path target)"

definition newRedirectHandler :: "string \<Rightarrow> string \<Rightarrow> URL \<Rightarrow> Handler" where
  "newRedirectHandler hostname hostPath target = PathCombinations (Redirect target) [] hostPath []"

definition Username :: "Userinfo option \<Rightarrow> string" where
  "Username u = (case u of None \<Rightarrow> [] | Some ui \<Rightarrow> ui_username ui)"

definition Password :: "Userinfo option \<Rightarrow> string option" where
  "Password u = (case u of None \<Rightarrow> None | Some ui \<Rightarrow> if ui_passwordSet ui then Some (ui_password ui) else None)"

text \<open>\<open>URL.Query\<close>: the pairs that parse, in order; the rest is dropped.\<close>

definition parse_pair :: "string \<Rightarrow> (string \<times> string) list" where
  "parse_pair s =
     (if CHR '';'' \<in> set s \<or> s = [] then []
      else (let (k, v) = Cut1 s CHR ''='' in
            case (unescape k encodeQueryComponent, unescape v encodeQueryComponent) of
              (Inr k', Inr v') \<Rightarrow> [(k', v')]
            | _ \<Rightarrow> []))"

definition Query :: "URL \<Rightarrow> (string \<times> string) list" where
  "Query u = concat (map parse_pair (Split (RawQuery u) CHR ''&''))"

text \<open>\<open>fs.ValidPath\<close> and \<open>fs.Sub\<close> on a file system without a \<open>Sub\<close> method of its own.\<close>

definition ValidPath :: "string \<Rightarrow> bool" where
  "ValidPath name \<longleftrightarrow> ValidString name \<and> (name = ''.'' \<or> list_all (\<lambda>e. e \<notin> {[], ''.'', ''..''}) (Split name CHR ''/''))"

definition newS3Handler :: "OS \<Rightarrow> string \<Rightarrow> string \<Rightarrow> URL \<Rightarrow> factory_error + Handler" where
  "newS3Handler os hostname hostPath target =
     (let creds = (case Password (User target) of Some secret \<Rightarrow> Some (Username (User target), secret) | None \<Rightarrow> None);
          parts = SplitN (Host target) ''.'' 2;
          (bucket, endpoint) = (if Contains (Host target) ''.'' then (parts ! 0, Some (parts ! 1)) else (Host target, None));
          region = map_of (Query target) ''region''
      in case aws_NewSession os creds endpoint region of
           Some err \<Rightarrow> Inl (OSError err)
         | None \<Rightarrow>
             (let prefix = (if length (Path target) \<le> 1 then ''.'' else Path target) in
              if \<not> ValidPath prefix then Inl (SubInvalidName prefix)
              else Inr (PathCombinations
                     (FileServer (S3 \<lparr>s3_credentials = creds, s3_endpoint = endpoint, s3_region = region,
                                      s3_bucket = bucket, s3_prefix = prefix\<rparr>))
                     hostname hostPath [])))"

definition newSftpFS :: "URL \<Rightarrow> sftpFS" where
  "newSftpFS target =
     \<lparr>sf_hostname = Host target,
      sf_User = (if Password (User target) = None then ''anonymous'' else Username (User target)),
      sf_Auth = (case Password (User target) of None \<Rightarrow> [] | Some password \<Rightarrow> [password]),
      sf_dir = (if length (Path target) \<le> 1 then ''.'' else Path target)\<rparr>"

definition newSftpHandler :: "string \<Rightarrow> string \<Rightarrow> URL \<Rightarrow> factory_error + Handler" where
  "newSftpHandler hostname hostPath target =
     Inr (PathCombinations (FileServer (Sftp (newSftpFS target))) hostname hostPath [])"

definition setupPHP :: "URL \<Rightarrow> string \<times> string" where
  "setupPHP cgiaddr = (Scheme cgiaddr, if length (Host cgiaddr) = 0 then Path cgiaddr else Host cgiaddr)"

definition Abs :: "OS \<Rightarrow> string \<Rightarrow> string + string" where
  "Abs os p = (if rooted p then Inr (Clean p) else map_sum id (\<lambda>wd. path_Join [wd, p]) (os_Getwd os))"

definition newPHPHandler ::
  "OS \<Rightarrow> (string \<times> string) option \<Rightarrow> string \<Rightarrow> string \<Rightarrow> string \<Rightarrow> factory_error + Handler" where
  "newPHPHandler os phpClientFactory hostname hostPath endpoint0 =
     (case phpClientFactory of
        None \<Rightarrow> Inl PHPNotConfigured
      | Some client \<Rightarrow>
         (case os_Stat os endpoint0 of
            Inl err \<Rightarrow> Inl (OSError err)
          | Inr isDir \<Rightarrow>
             (case Abs os endpoint0 of
                Inl err \<Rightarrow> Inl (OSError err)
              | Inr endpoint \<Rightarrow>
                 (let (sess, targetPath) =
                        (if isDir then (PHPFS endpoint, endpoint) else (FileEndpoint endpoint, Dir endpoint))
                  in Inr (PathCombinations (PHP sess client) hostname hostPath targetPath)))))"

definition newGoWasmHandler :: "string \<Rightarrow> string \<Rightarrow> string \<Rightarrow> Handler" where
  "newGoWasmHandler hostname hostPath wasmFile = GoWasm hostPath wasmFile"

definition newTailHandler :: "string \<Rightarrow> string \<Rightarrow> string \<Rightarrow> Whence \<Rightarrow> Handler" where
  "newTailHandler hostname hostPath tailFile whence = Tail tailFile whence"

record HandlerFactory =
  phpClientFactory :: "(string \<times> string) option"

definition NewHandlerFactory :: "URL option \<Rightarrow> HandlerFactory" where
  "NewHandlerFactory phpaddr = \<lparr>phpClientFactory = map_option setupPHP phpaddr\<rparr>"

definition HandlerFactory_Handler :: "OS \<Rightarrow> HandlerFactory \<Rightarrow> string \<Rightarrow> URL \<Rightarrow> factory_error + Handler" where
  "HandlerFactory_Handler os hf hostname0 target =
     (let (hostname, hostPath) = splitHostnameAndPath hostname0;
          file = Host target @ Path target in
      if Scheme target = ''file'' then Inr (newFileServer os hostname hostPath file)
      else if Scheme target = ''http'' \<or> Scheme target = ''https'' then Inr (newProxyHandler hostname hostPath target)
      else if Scheme target = ''redirect'' then Inr (newRedirectHandler hostname hostPath target)
      else if Scheme target = ''s3'' then newS3Handler os hostname hostPath target
      else if Scheme target = ''sftp'' then newSftpHandler hostname hostPath target
      else if Scheme target = ''php'' then newPHPHandler os (phpClientFactory hf) hostname hostPath file
      else if Scheme target = ''go-wasm'' then Inr (newGoWasmHandler hostname hostPath file)
      else if Scheme target = ''tail'' then Inr (newTailHandler hostname hostPath file SeekStart)
      else if Scheme target = ''tail-new'' then Inr (newTailHandler hostname hostPath file SeekEnd)
      else Inl (UnknownScheme (Scheme target)))"

section \<open>Serving\<close>

text \<open>What the tail handler's loop receives: the end of the request, the end of the lines, or a line
  with its error.\<close>

datatype TailEvent = ContextDone | LinesClosed | TailLine string "string option"

text \<open>The outside world of serving. The reverse proxy and the FastCGI handler may panic: \<open>httputil.ReverseProxy\<close> aborts the handler with
  \<open>http.ErrAbortHandler\<close> when copying the body of the proxied server fails.\<close>

record Backends =
  be_ServeFile :: "string \<Rightarrow> Request \<Rightarrow> Header \<Rightarrow> Answer"
  be_FileServer :: "FileSystem \<Rightarrow> Request \<Rightarrow> Header \<Rightarrow> Answer outcome"
  be_RoundTrip :: "Request \<Rightarrow> Header \<Rightarrow> Answer outcome"
  be_PHP :: "PHPSession \<Rightarrow> string \<times> string \<Rightarrow> Request \<Rightarrow> Header \<Rightarrow> Answer outcome"
  be_asset :: "string \<Rightarrow> string list"
  be_TailFile :: "string \<Rightarrow> Whence \<Rightarrow> string + TailEvent list"
  be_detect :: "string \<Rightarrow> string"
  be_tokenize :: "string \<Rightarrow> Token list"

text \<open>\<open>director\<close> of \<open>httputil.NewSingleHostReverseProxy\<close>: the request the proxied server gets.\<close>

definition director :: "URL \<Rightarrow> Request \<Rightarrow> Request outcome" where
  "director target r =
     bind_outcome (joinURLPath target (r_URL r)) (\<lambda>(path, rawpath).
       Ret (r\<lparr>r_URL := (r_URL r)\<lparr>Scheme := Scheme target, Host := Host target, Path := path, RawPath := rawpath,
                                 RawQuery := joinQuery (RawQuery target) (RawQuery (r_URL r))\<rparr>,
              r_Header := (if r_Header r ''User-Agent'' = [] then Header_Set (r_Header r) ''User-Agent'' [] else r_Header r)\<rparr>))"

text \<open>The location a redirect handler answers with.\<close>

definition redirectURL :: "URL \<Rightarrow> URL \<Rightarrow> URL outcome" where
  "redirectURL target u =
     bind_outcome (joinURLPath target (u\<lparr>Host := Host target\<rparr>)) (\<lambda>(path, rawpath).
       Ret (u\<lparr>Host := Host target, Path := path, RawPath := rawpath,
              RawQuery := joinQuery (RawQuery target) (RawQuery u)\<rparr>))"

definition BaseHandler_serve :: "Backends \<Rightarrow> BaseHandler \<Rightarrow> Request \<Rightarrow> Header \<Rightarrow> Answer outcome" where
  "BaseHandler_serve be b r h =
     (case b of
        ServeFile file \<Rightarrow> Ret (be_ServeFile be file r h)
      | FileServer fs \<Rightarrow> be_FileServer be fs r h
      | ReverseProxy target \<Rightarrow> bind_outcome (director target r) (\<lambda>r'. be_RoundTrip be r' h)
      | Redirect target \<Rightarrow>
          bind_outcome (redirectURL target (r_URL r)) (\<lambda>u. Ret (http_Redirect r h (URL_String u) StatusSeeOther))
      | PHP sess client \<Rightarrow> be_PHP be sess client r h)"

definition stripHostPath :: "string \<Rightarrow> URL \<Rightarrow> URL" where
  "stripHostPath hostPath u =
     (let u1 = u\<lparr>Path := TrimPrefix (Path u) hostPath, RawPath := TrimPrefix (RawPath u) hostPath\<rparr> in
      if \<not> HasPrefix (Path u1) ''/'' then u1\<lparr>Path := ''/'' @ Path u1, RawPath := ''/'' @ RawPath u1\<rparr> else u1)"

definition handlePathCombinations ::
  "Backends \<Rightarrow> BaseHandler \<Rightarrow> string \<Rightarrow> string \<Rightarrow> string \<Rightarrow> Response \<Rightarrow> Request \<Rightarrow> Response outcome" where
  "handlePathCombinations be b hostname hostPath targetPath w r =
     bind_outcome
       (BaseHandler_serve be b (r\<lparr>r_URL := stripHostPath hostPath (r_URL r)\<rparr>) (w_Header w)) (\<lambda>a.
       Ret (pathPrefix_respond (be_detect be) (be_tokenize be)
              (NewPathPrefixHTMLResponseWriter hostname hostPath targetPath (w\<lparr>w_Header := an_Header a\<rparr>))
              (an_Status a) (an_Body a)))"

text \<open>The embedded files are those of the package directory \<open>assets\<close>, under their names relative to it; their
  contents are given. The directory itself can be opened but not read. Opening any other name fails, and deferring \<open>Close\<close> on the nil file panics.\<close>

definition assets_Open :: "Backends \<Rightarrow> string \<Rightarrow> string list option" where
  "assets_Open be filename =
     (if filename \<in> set [''assets.go'', ''go-wasm.html'', ''go-wasm.js''] then Some (be_asset be filename)
      else if filename = ''.'' then Some [] else None)"

definition GoWasm_serve :: "Backends \<Rightarrow> string \<Rightarrow> string \<Rightarrow> Request \<Rightarrow> Header \<Rightarrow> Answer outcome" where
  "GoWasm_serve be hostPath wasmFile r h =
     (let cleanHostPath = Clean hostPath;
          wasmJs = path_Join [hostPath, ''go-wasm.js''];
          wasmMain = path_Join [hostPath, ''main.wasm''];
          p = Path (r_URL r) in
      if p = cleanHostPath then Ret (http_Redirect r h (cleanHostPath @ ''/'') StatusSeeOther)
      else if p = cleanHostPath @ ''/'' then
        (case assets_Open be ''assets/go-wasm.html'' of
           None \<Rightarrow> Panic
         | Some file \<Rightarrow> Ret \<lparr>an_Header = Header_Set h ''Content-Type'' ''text/html; charset=utf-8'', an_Status = None, an_Body = file\<rparr>)
      else if p = wasmJs then
        (case assets_Open be ''assets/go-wasm.js'' of
           None \<Rightarrow> Panic
         | Some file \<Rightarrow> Ret \<lparr>an_Header = Header_Set h ''Content-Type'' ''text/javascript'', an_Status = None, an_Body = file\<rparr>)
      else if p = wasmMain then Ret (be_ServeFile be wasmFile r h)
      else Ret (error_answer h ''Not found'' StatusNotFound))"

text \<open>The loop of the tail handler on the events so far: the pieces written and whether it has returned.\<close>

fun tail_loop :: "TailEvent list \<Rightarrow> string list \<times> bool" where
  "tail_loop [] = ([], False)"
| "tail_loop (ContextDone # es) = ([], True)"
| "tail_loop (LinesClosed # es) = ([], True)"
| "tail_loop (TailLine line None # es) = (case tail_loop es of (ps, d) \<Rightarrow> ((line @ [CHR 0x0A]) # ps, d))"
| "tail_loop (TailLine line (Some err) # es) = ([line @ [CHR 0x0A], err], True)"

definition Tail_serve :: "Backends \<Rightarrow> string \<Rightarrow> Whence \<Rightarrow> Header \<Rightarrow> Answer outcome" where
  "Tail_serve be tailFile whence h =
     (case be_TailFile be tailFile whence of
        Inl err \<Rightarrow> Panic
      | Inr events \<Rightarrow>
          Ret \<lparr>an_Header = Header_Add h ''content-type'' ''text/plain; charset=utf-8'', an_Status = Some StatusOK,
               an_Body = fst (tail_loop events)\<rparr>)"

definition Handler_ServeHTTP :: "Backends \<Rightarrow> Handler \<Rightarrow> Response \<Rightarrow> Request \<Rightarrow> Response outcome" where
  "Handler_ServeHTTP be handler w r =
     (case handler of
        PathCombinations b hostname hostPath targetPath \<Rightarrow> handlePathCombinations be b hostname hostPath targetPath w r
      | GoWasm hostPath wasmFile \<Rightarrow>
          bind_outcome (GoWasm_serve be hostPath wasmFile r (w_Header w)) (\<lambda>a. Ret (reply w a))
      | Tail tailFile whence \<Rightarrow>
          bind_outcome (Tail_serve be tailFile whence (w_Header w)) (\<lambda>a. Ret (reply w a)))"

text \<open>What a handler does to a writer that is not the plain one (the debug interface wraps it once more): the
  wrapping handlers always send their status themselves when there is anything to send.\<close>

definition response_answer :: "Response \<Rightarrow> Answer" where
  "response_answer w =
     (case w_Sent w of
        None \<Rightarrow> \<lparr>an_Header = w_Header w, an_Status = None, an_Body = []\<rparr>
      | Some (code, h) \<Rightarrow> \<lparr>an_Header = h, an_Status = Some code, an_Body = [w_Body w]\<rparr>)"

definition Handler_answer :: "Backends \<Rightarrow> Handler \<Rightarrow> Header \<Rightarrow> Request \<Rightarrow> Answer outcome" where
  "Handler_answer be handler h r =
     (case handler of
        PathCombinations b hostname hostPath targetPath \<Rightarrow>
          bind_outcome
            (handlePathCombinations be b hostname hostPath targetPath (Response_zero\<lparr>w_Header := h\<rparr>) r)
            (\<lambda>w. Ret (response_answer w))
      | GoWasm hostPath wasmFile \<Rightarrow> GoWasm_serve be hostPath wasmFile r h
      | Tail tailFile whence \<Rightarrow> Tail_serve be tailFile whence h)"

section \<open>Paths\<close>

lemma singleJoiningSlash_join_slash: "singleJoiningSlash a b = join_slash a b"
  by (simp add: singleJoiningSlash_def join_slash_def Let_def)

lemma HasPrefix_slash: "HasPrefix b ''/'' \<longleftrightarrow> (\<exists>b'. b = CHR ''/'' # b')"
  by (cases b) auto

lemma TrimPrefix_join_slash:
  assumes "\<not> HasPrefix x ''//''"
  shows "(let y = TrimPrefix (join_slash hp x) hp in if HasPrefix y ''/'' then y else CHR ''/'' # y) =
     (if HasPrefix x ''/'' then x else CHR ''/'' # x)"
proof (cases "HasPrefix x ''/''")
  case True
  then obtain x' where x: "x = CHR ''/'' # x'" using HasPrefix_slash by blast
  with assms have "\<not> HasPrefix x' ''/''" by simp
  with x show ?thesis by (simp add: join_slash_def)
next
  case False
  then show ?thesis by (simp add: join_slash_def)
qed

lemma joinURLPath_forms:
  "\<exists>p raw. joinURLPath a b = Ret (p, raw) \<and>
     (if RawPath a = [] \<and> RawPath b = [] then p = singleJoiningSlash (Path a) (Path b) \<and> raw = []
      else raw = singleJoiningSlash (EscapedPath a) (EscapedPath b) \<and> unescape raw encodePath = Inr p)"
proof (cases "RawPath a = [] \<and> RawPath b = []")
  case True
  then show ?thesis by (simp add: joinURLPath_def)
next
  case False
  note ua = unescape_EscapedPath [of a] and ub = unescape_EscapedPath [of b]
  show ?thesis
  proof (cases "HasPrefix (EscapedPath b) ''/''")
    case True
    then obtain x where "Path b = CHR ''/'' # x" "unescape (drop 1 (EscapedPath b)) encodePath = Inr x"
      using unescape_slash_Cons [OF ub] by blast
    with True False ua ub show ?thesis
      by (auto simp: joinURLPath_def singleJoiningSlash_def unescape_append Let_def)
  next
    case no_slash: False
    have "unescape (''/'' @ EscapedPath b) encodePath = Inr (CHR ''/'' # Path b)" using ub by simp
    with no_slash False ua ub show ?thesis
      by (auto simp: joinURLPath_def singleJoiningSlash_def unescape_append Let_def)
  qed
qed


text \<open>A request whose URL had no escaped form keeps at most a slash as one when the host path is stripped,
  and then the paths are joined as they are.\<close>

lemma stripHostPath_Path:
  "Path (stripHostPath hp v) =
     (let y = TrimPrefix (Path v) hp in if HasPrefix y ''/'' then y else CHR ''/'' # y)"
  by (simp add: stripHostPath_def Let_def)

lemma stripHostPath_RawPath: "RawPath v = [] \<Longrightarrow> RawPath (stripHostPath hp v) \<in> {[], ''/''}"
  by (simp add: stripHostPath_def TrimPrefix_def Let_def)

lemma joinURLPath_Path:
  assumes "RawPath a = []" "RawPath b = [] \<or> HasPrefix (RawPath b) ''/''" "HasPrefix (Path b) ''/''"
  shows "\<exists>raw. joinURLPath a b = Ret (singleJoiningSlash (Path a) (Path b), raw)"
proof -
  have "HasPrefix (EscapedPath b) ''/''"
    using assms(2,3) by (auto simp: EscapedPath_def escape_path_slashes split: if_splits)
  moreover obtain p where "Path b = CHR ''/'' # p" using assms(3) by (auto simp: HasPrefix_slash)
  ultimately show ?thesis
    using assms(1) EscapedPath_RawPath_Nil(1) [of a]
    by (auto simp: joinURLPath_def singleJoiningSlash_def Let_def)
qed

text \<open>A path that a URL needs no escaping for.\<close>

definition plain_host_path :: "string \<Rightarrow> bool" where
  "plain_host_path p \<longleftrightarrow> (p = [] \<or> HasPrefix p ''/'') \<and> \<not> HasPrefix p ''//'' \<and> list_all path_char p \<and> CHR 0x25 \<notin> set p"

lemma unescape_plain: "CHR 0x25 \<notin> set s \<Longrightarrow> unescape s encodePath = Inr s"
  by (induction s) auto

lemma slash_path_char: "path_char (CHR ''/'')"
  by code_simp

text \<open>Joining below a rooted path keeps it rooted, with one leading slash.\<close>

lemma rooted_append:
  assumes "a = [] \<or> HasPrefix a ''/''" "\<not> HasPrefix a ''//''" "a = [] \<longrightarrow> HasPrefix b ''/''" "\<not> HasPrefix b ''//''"
    "\<not> (HasSuffix a ''/'' \<and> HasPrefix b ''/'')"
  shows "HasPrefix (a @ b) ''/''" "\<not> HasPrefix (a @ b) ''//''"
proof -
  consider "a = []" | "a = ''/''" | c a' where "a = CHR ''/'' # c # a'" "c \<noteq> CHR ''/''"
    using assms(1,2) by (cases a; cases "tl a") auto
  then have "HasPrefix (a @ b) ''/'' \<and> \<not> HasPrefix (a @ b) ''//''"
  proof cases
    case 1
    then show ?thesis using assms by simp
  next
    case 2
    then show ?thesis using assms(5) by (simp add: HasSuffix_single)
  qed simp
  then show "HasPrefix (a @ b) ''/''" "\<not> HasPrefix (a @ b) ''//''" by simp_all
qed

lemma join_slash_form:
  obtains x' where "join_slash a x = a @ x'" "x' = (if HasSuffix a ''/'' then TrimPrefix x ''/'' else if HasPrefix x ''/'' then x else CHR ''/'' # x)"
  using that by (simp add: join_slash_def TrimPrefix_def)

lemma join_slash_rooted:
  assumes a: "a = [] \<or> HasPrefix a ''/''" "\<not> HasPrefix a ''//''" "list_all path_char a"
    and x: "\<not> HasPrefix x ''//''" "list_all path_char x"
  shows "HasPrefix (join_slash a x) ''/''" "\<not> HasPrefix (join_slash a x) ''//''" "list_all path_char (join_slash a x)"
proof -
  obtain x' where e: "join_slash a x = a @ x'"
    "x' = (if HasSuffix a ''/'' then TrimPrefix x ''/'' else if HasPrefix x ''/'' then x else CHR ''/'' # x)"
    by (rule join_slash_form)
  have n: "HasSuffix a ''/'' \<Longrightarrow> \<not> HasPrefix x' ''/''" using x(1) by (cases x) (auto simp: e(2) TrimPrefix_def)
  have d: "\<not> HasPrefix x' ''//''" using x(1) by (cases x; cases "tl x") (auto simp: e(2) TrimPrefix_def)
  have "a = [] \<longrightarrow> HasPrefix x' ''/''" by (simp add: e(2) HasSuffix_single)
  from rooted_append [OF a(1,2) this d] n show "HasPrefix (join_slash a x) ''/''" "\<not> HasPrefix (join_slash a x) ''//''"
    unfolding e(1) by blast+
  have "list_all path_char x'" using x(2) slash_path_char by (cases x) (simp_all add: e(2) TrimPrefix_def)
  then show "list_all path_char (join_slash a x)" using a(3) by (simp add: e(1))
qed

text \<open>A path below a host path, as text \<open>x\<close> and decoded \<open>y\<close>, that is requested with a query and stripped of the host path again.\<close>

lemma requested_below:
  assumes hp: "plain_host_path hostPath" and x: "list_all path_char x" "unescape x encodePath = Inr y"
    and slash: "HasPrefix x ''/'' = HasPrefix y ''/''" "\<not> HasPrefix x ''//''" "\<not> HasPrefix y ''//''"
    and q: "q = [] \<or> HasPrefix q ''?''" "\<forall>c \<in> set q. c \<noteq> CHR ''#'' \<and> \<not> ctlByte c"
  shows "\<exists>v. URL_Parse (join_slash hostPath x @ q) = Inr v \<and> Host v = [] \<and> RawQuery v = drop 1 q \<and>
    Path (stripHostPath hostPath v) = (if HasPrefix y ''/'' then y else CHR ''/'' # y) \<and>
    (RawPath (stripHostPath hostPath v) = [] \<or> HasPrefix (RawPath (stripHostPath hostPath v)) ''/'')"
proof -
  have host: "hostPath = [] \<or> HasPrefix hostPath ''/''" "\<not> HasPrefix hostPath ''//''" "list_all path_char hostPath"
    "unescape hostPath encodePath = Inr hostPath"
    using hp unescape_plain by (simp_all add: plain_host_path_def)
  let ?p = "join_slash hostPath x"
  have tail: "unescape (drop 1 x) encodePath = Inr (drop 1 y)" if "HasPrefix x ''/''"
    by (rule unescape_slash_Cons [OF x(2) that]) simp
  have sl: "unescape (''/'' @ x) encodePath = Inr (CHR ''/'' # y)" using x(2) by simp
  have dec: "unescape ?p encodePath = Inr (join_slash hostPath y)"
  proof (cases "HasPrefix x ''/''")
    case True
    then show ?thesis using slash(1) x(2) host(4) tail by (simp add: join_slash_def unescape_append)
  next
    case False
    then show ?thesis using slash(1) x(2) host(4) sl by (simp add: join_slash_def unescape_append)
  qed
  note prefix = join_slash_rooted [OF host(1-3) slash(2) x(1)]
  obtain v where v: "URL_Parse (?p @ q) = Inr v" "Host v = []" "RawQuery v = drop 1 q" "Path v = join_slash hostPath y"
    "RawPath v \<in> {[], ?p}"
    using URL_Parse_path_query [OF prefix dec q] by blast
  have "Path (stripHostPath hostPath v) = (if HasPrefix y ''/'' then y else CHR ''/'' # y)"
    using TrimPrefix_join_slash [OF slash(3), of hostPath] by (simp only: stripHostPath_Path v(4))
  moreover have "RawPath (stripHostPath hostPath v) = [] \<or> HasPrefix (RawPath (stripHostPath hostPath v)) ''/''"
    using v(4,5) slash by (auto simp: stripHostPath_def Let_def TrimPrefix_def join_slash_def HasPrefix_slash)
  ultimately show ?thesis using v(1-3) by blast
qed

lemma join_slash_append: "\<not> HasPrefix q ''/'' \<Longrightarrow> join_slash a (x @ q) = join_slash a x @ q"
  by (cases x) (simp_all add: join_slash_def)


definition get_request :: "string \<Rightarrow> string \<Rightarrow> Request" where
  "get_request host path =
     \<lparr>r_Method = ''GET'', r_Host = host, r_URL = URL_zero\<lparr>Path := path\<rparr>, r_Header = no_headers,
      r_RemoteAddr = ''127.0.0.1:4711'', r_Body = []\<rparr>"

definition proxy_target :: URL where
  "proxy_target = URL_zero\<lparr>Scheme := ''http'', Host := ''localhost'', Path := ''/base''\<rparr>"


section \<open>Redirects\<close>

lemma hexEscape_ascii: "\<forall>c \<in> set s. (of_char c :: nat) < 0x80 \<Longrightarrow> hexEscapeNonASCII s = s"
  by (induction s) (auto simp: hexEscapeNonASCII_def)

text \<open>A location with an authority is left alone by \<open>http.Redirect\<close>, and by the rewriting for another host.\<close>

lemma authority_location:
  assumes "URL_Parse loc = Inr u" "Host u \<noteq> []"
  shows "redirect_location oldpath loc = loc" and "Host u \<noteq> hostname \<Longrightarrow> updateLocation loc hostname hp tp = loc"
  using assms by (simp_all add: redirect_location_def updateLocation_def)

lemma singleJoiningSlash_rooted:
  "a = [] \<or> HasPrefix a ''/'' \<Longrightarrow> HasPrefix b ''/'' \<Longrightarrow> HasPrefix (singleJoiningSlash a b) ''/''"
  by (cases a) (auto simp: singleJoiningSlash_def HasSuffix_single Let_def)

lemma redirectURL_facts:
  assumes t: "RawPath target = []" "Path target = [] \<or> HasPrefix (Path target) ''/''"
    and u: "RawPath u \<in> {[], ''/''}" "HasPrefix (Path u) ''/''"
  obtains v where "redirectURL target u = Ret v" "Host v = Host target" "Scheme v = Scheme u" "Opaque v = Opaque u"
    "User v = User u" "Fragment v = Fragment u" "ForceQuery v = ForceQuery u"
    "Path v = singleJoiningSlash (Path target) (Path u)"
    "RawQuery v = joinQuery (RawQuery target) (RawQuery u)" "HasPrefix (EscapedPath v) ''/''"
proof -
  let ?u = "u\<lparr>Host := Host target\<rparr>"
  have e: "EscapedPath ?u = EscapedPath u" by (simp add: EscapedPath_def)
  obtain raw where j: "joinURLPath target ?u = Ret (singleJoiningSlash (Path target) (Path u), raw)"
    using joinURLPath_Path [of target ?u] t u by auto
  have raw: "raw = [] \<or> raw = singleJoiningSlash (EscapedPath target) (EscapedPath u)"
    by (rule exE [OF joinURLPath_forms [of target ?u, unfolded j e]]) (simp split: if_splits)
  define v where "v = u\<lparr>Host := Host target, Path := singleJoiningSlash (Path target) (Path u), RawPath := raw,
              RawQuery := joinQuery (RawQuery target) (RawQuery u)\<rparr>"
  have rooted: "HasPrefix (EscapedPath u) ''/''"
    using u by (auto simp: EscapedPath_def escape_path_slashes split: if_splits)
  have "Path target = [] \<Longrightarrow> EscapedPath target = []" using t(1) by (simp add: EscapedPath_def)
  then have tr: "EscapedPath target = [] \<or> HasPrefix (EscapedPath target) ''/''"
    using t EscapedPath_RawPath_Nil(2) [of target] by auto
  have "HasPrefix (EscapedPath v) ''/''"
  proof (cases "raw = []")
    case True
    then show ?thesis
      using EscapedPath_RawPath_Nil(2) [of v] singleJoiningSlash_rooted [OF t(2) u(2)] by (simp add: v_def)
  next
    case False
    with raw singleJoiningSlash_rooted [OF tr rooted] have "HasPrefix raw ''/''" by simp
    moreover have "HasPrefix (Path v) ''/''" using singleJoiningSlash_rooted [OF t(2) u(2)] by (simp add: v_def)
    ultimately show ?thesis by (auto simp: EscapedPath_def v_def escape_path_slashes)
  qed
  then show ?thesis
    using that [of v] j by (simp add: redirectURL_def v_def)
qed

text \<open>A reference to a host, printed: it is ASCII, and parses to that host.\<close>

lemma host_reference:
  assumes v: "Scheme v = []" "Opaque v = []" "User v = None" "Fragment v = []" "HasPrefix (EscapedPath v) ''/''"
    and h: "Host v \<noteq> []" "list_all host_char (Host v)"
    and q: "\<forall>c \<in> set (RawQuery v). c \<noteq> CHR ''#'' \<and> \<not> ctlByte c \<and> (of_char c :: nat) < 0x80"
    and loc: "loc = ''//'' @ Host v @ EscapedPath v @ query_String v"
  shows "URL_String v = loc" "hexEscapeNonASCII loc = loc" "\<exists>u. URL_Parse loc = Inr u \<and> Host u = Host v"
proof -
  obtain e where e: "EscapedPath v = CHR ''/'' # e" using v(5) by (auto simp: HasPrefix_slash)
  show "URL_String v = loc" using v h(1) e by (simp add: URL_String_def Let_def loc escape_host [OF h(2)])
  have mark: "CHR ''?'' \<noteq> CHR ''#'' \<and> \<not> ctlByte CHR ''?'' \<and> (of_char CHR ''?'' :: nat) < 0x80" by code_simp
  have qs: "query_String v = [] \<or> HasPrefix (query_String v) ''?''"
    "set (query_String v) \<subseteq> insert CHR ''?'' (set (RawQuery v))"
    by (auto simp: query_String_def)
  have qs2: "\<forall>c \<in> set (query_String v). c \<noteq> CHR ''#'' \<and> \<not> ctlByte c \<and> (of_char c :: nat) < 0x80"
    using qs(2) q mark by blast
  have qs3: "\<forall>c \<in> set (query_String v). c \<noteq> CHR ''#'' \<and> \<not> ctlByte c" using qs2 by simp
  show "\<exists>u. URL_Parse loc = Inr u \<and> Host u = Host v"
    using URL_Parse_authority [OF h v(5) EscapedPath_chars unescape_EscapedPath qs(1) qs3, folded loc] by blast
  have pc: "(of_char c :: nat) < 0x80" if "path_char c" for c using that by (simp add: path_char_def)
  have "\<forall>c \<in> set (Host v) \<union> set (EscapedPath v) \<union> set ''//''. path_char c"
    using EscapedPath_chars [of v] h(2) host_char_facts(1) slash_path_char unfolding list_all_iff by auto
  with pc qs2 have "\<forall>c \<in> set loc. (of_char c :: nat) < 0x80" unfolding loc set_append by blast
  then show "hexEscapeNonASCII loc = loc" by (rule hexEscape_ascii)
qed

text \<open>
  C21. A redirect target with a host sends the client to that host. For a request without escaped path, the answer is
  a 303 whose \<open>Location\<close> is a reference to the target's host, with the path (the host path
  replaced by the target's path) and the two queries joined; neither \<open>http.Redirect\<close> nor the
  rewriting of responses changes it.
\<close>
theorem redirect_sends_to_target:
  assumes be: "be_tokenize be [] = []" and w: "w_Sent w = None"
    and t: "RawPath target = []" "Path target = [] \<or> HasPrefix (Path target) ''/''"
       "Host target \<noteq> []" "list_all host_char (Host target)"
    and r: "r_URL r = URL_zero\<lparr>Path := p, RawQuery := q\<rparr>"
    and q: "\<forall>c \<in> set (joinQuery (RawQuery target) q). c \<noteq> CHR ''#'' \<and> \<not> ctlByte c \<and> (of_char c :: nat) < 0x80"
  shows "\<exists>out h v. handlePathCombinations be (Redirect target) [] hostPath [] w r = Ret out \<and>
     w_Sent out = Some (StatusSeeOther, h) \<and>
     Header_Get h ''Location'' = ''//'' @ Host target @ EscapedPath v @ query_String v \<and>
     Path v = singleJoiningSlash (Path target) (Path (stripHostPath hostPath (r_URL r))) \<and>
     RawQuery v = joinQuery (RawQuery target) q"
proof -
  let ?u = "stripHostPath hostPath (r_URL r)"
  have u: "RawPath ?u \<in> {[], ''/''}" "HasPrefix (Path ?u) ''/''"
    using r stripHostPath_RawPath [of "r_URL r" hostPath] by (auto simp: URL_zero_def stripHostPath_Path Let_def)
  have u2: "Scheme ?u = []" "Opaque ?u = []" "User ?u = None" "Fragment ?u = []" "ForceQuery ?u = False" "RawQuery ?u = q"
    by (simp_all add: r URL_zero_def stripHostPath_def Let_def)
  obtain v where v: "redirectURL target ?u = Ret v" "Host v = Host target" "Scheme v = []" "Opaque v = []"
      "User v = None" "Fragment v = []" "ForceQuery v = False"
      "Path v = singleJoiningSlash (Path target) (Path ?u)"
      "RawQuery v = joinQuery (RawQuery target) q" "HasPrefix (EscapedPath v) ''/''"
    using redirectURL_facts [OF t(1,2) u] u2 by metis
  define loc where "loc = ''//'' @ Host v @ EscapedPath v @ query_String v"
  note ref = host_reference [OF v(3-6,10) t(3,4) [folded v(2)] q [folded v(9)] loc_def]
  note str = ref(1) and ascii = ref(2)
  obtain u' where u': "URL_Parse loc = Inr u'" "Host u' = Host target" using ref(3) v(2) by auto
  have ne: "Host u' \<noteq> []" using u'(2) t(3) by simp
  note loc_same = authority_location [OF u'(1) ne]
  define a where "a = http_Redirect (r\<lparr>r_URL := ?u\<rparr>) (w_Header w) (URL_String v) StatusSeeOther"
  have a: "Header_Get (an_Header a) ''Location'' = loc" "an_Status a = Some StatusSeeOther"
    by (simp_all add: a_def http_Redirect_def Let_def str loc_same ascii)
  have serve: "BaseHandler_serve be (Redirect target) (r\<lparr>r_URL := ?u\<rparr>) (w_Header w) = Ret a"
    by (simp add: BaseHandler_serve_def v(1) a_def)
  have loc_ne: "loc \<noteq> []" by (simp add: loc_def)
  have "Header_Get (rewritten_header [] hostPath [] (an_Header a)) ''Location'' = loc"
    using a(1) loc_same(2) [of "[]" hostPath "[]"] ne loc_ne by (simp add: rewritten_header_def Let_def)
  moreover have "w_Sent (pathPrefix_respond (be_detect be) (be_tokenize be)
      (NewPathPrefixHTMLResponseWriter [] hostPath [] (w\<lparr>w_Header := an_Header a\<rparr>)) (Some StatusSeeOther) (an_Body a)) =
      Some (StatusSeeOther, rewritten_header [] hostPath [] (an_Header a))"
    using respond_explicit [of "w\<lparr>w_Header := an_Header a\<rparr>" "be_tokenize be"] be w by simp
  ultimately show ?thesis
    using v(2,8,9) a(2) by (simp add: handlePathCombinations_def serve loc_def) blast
qed

definition idle_backends :: Backends where
  "idle_backends =
     \<lparr>be_ServeFile = (\<lambda>file r h. \<lparr>an_Header = h, an_Status = Some StatusOK, an_Body = [file]\<rparr>),
      be_FileServer = (\<lambda>fs r h. Ret \<lparr>an_Header = h, an_Status = Some StatusOK, an_Body = [Path (r_URL r)]\<rparr>),
      be_RoundTrip = (\<lambda>r h. Ret \<lparr>an_Header = h, an_Status = Some StatusOK, an_Body = [Path (r_URL r)]\<rparr>),
      be_PHP = (\<lambda>sess client r h. Ret \<lparr>an_Header = h, an_Status = Some StatusOK, an_Body = []\<rparr>),
      be_asset = (\<lambda>name. [name]), be_TailFile = (\<lambda>file whence. Inr []),
      be_detect = (\<lambda>p. ''text/plain''), be_tokenize = (\<lambda>s. if s = [] then [] else [text_token s])\<rparr>"

theorem redirect_sends_to_target_witness:
  "\<exists>out h v. handlePathCombinations idle_backends
       (Redirect (URL_zero\<lparr>Scheme := ''redirect'', Host := ''github.com'', Path := ''/razzie'', RawQuery := ''a''\<rparr>))
       [] ''/go'' [] Response_zero ((get_request ''x.com'' [])\<lparr>r_URL := URL_zero\<lparr>Path := ''/go/x'', RawQuery := ''b''\<rparr>\<rparr>) = Ret out \<and>
     w_Sent out = Some (StatusSeeOther, h) \<and>
     Header_Get h ''Location'' = ''//'' @ ''github.com'' @ EscapedPath v @ query_String v \<and>
     Path v = ''/razzie/x'' \<and> RawQuery v = ''a&b''"
proof -
  let ?t = "URL_zero\<lparr>Scheme := ''redirect'', Host := ''github.com'', Path := ''/razzie'', RawQuery := ''a''\<rparr>"
  let ?r = "(get_request ''x.com'' [])\<lparr>r_URL := URL_zero\<lparr>Path := ''/go/x'', RawQuery := ''b''\<rparr>\<rparr>"
  have 1: "be_tokenize idle_backends [] = []" by (simp add: idle_backends_def)
  have 2: "RawPath ?t = []" "Path ?t = [] \<or> HasPrefix (Path ?t) ''/''" "Host ?t \<noteq> []" "list_all host_char (Host ?t)"
    by code_simp+
  have 3: "joinQuery (RawQuery ?t) ''b'' = ''a&b''" by code_simp
  then have 4: "\<forall>c \<in> set (joinQuery (RawQuery ?t) ''b''). c \<noteq> CHR ''#'' \<and> \<not> ctlByte c \<and> (of_char c :: nat) < 0x80"
    by (simp add: ctlByte_def)
  have 5: "singleJoiningSlash (Path ?t) (Path (stripHostPath ''/go'' (r_URL ?r))) = ''/razzie/x''" by code_simp
  show ?thesis
    using redirect_sends_to_target [OF 1 _ 2 _ 4, of Response_zero ?r "''/go/x''" "''/go''"] 3 5
    by (simp add: Response_zero_def)
qed

section \<open>The factory\<close>

lemma splitHostnameAndPath_spec:
  "splitHostnameAndPath s = (takeWhile (\<lambda>c. c \<noteq> CHR ''/'') s, dropWhile (\<lambda>c. c \<noteq> CHR ''/'') s)"
proof -
  let ?h = "takeWhile (\<lambda>c. c \<noteq> CHR ''/'') s" and ?p = "dropWhile (\<lambda>c. c \<noteq> CHR ''/'') s"
  have "CHR ''/'' \<notin> set s \<Longrightarrow> ?h = s \<and> ?p = []" by (auto simp: takeWhile_eq_all_conv)
  moreover have "CHR ''/'' \<in> set s \<Longrightarrow> splitHostnameAndPath s = (?h, ?p)"
    by (simp add: splitHostnameAndPath_def Index_single takeWhile_eq_take [symmetric] dropWhile_eq_drop [symmetric])
  moreover have "CHR ''/'' \<notin> set s \<Longrightarrow> splitHostnameAndPath s = (s, [])"
    by (simp add: splitHostnameAndPath_def Index_single)
  ultimately show ?thesis by metis
qed

lemma splitHostnameAndPath_parts:
  assumes "splitHostnameAndPath s = (h, p)"
  shows "h @ p = s" and "CHR ''/'' \<notin> set h" and "p = [] \<or> HasPrefix p ''/''"
proof -
  let ?h = "takeWhile (\<lambda>c. c \<noteq> CHR ''/'') s" and ?p = "dropWhile (\<lambda>c. c \<noteq> CHR ''/'') s"
  have hp: "h = ?h" "p = ?p" using assms by (simp_all add: splitHostnameAndPath_spec)
  show "h @ p = s" unfolding hp by (rule takeWhile_dropWhile_id)
  show "CHR ''/'' \<notin> set h" unfolding hp by (auto dest: set_takeWhileD)
  show "p = [] \<or> HasPrefix p ''/''"
    using hd_dropWhile [of "\<lambda>c. c \<noteq> CHR ''/''" s] unfolding hp by (cases ?p) auto
qed

lemma ValidPath_rooted: "HasPrefix p ''/'' \<Longrightarrow> \<not> ValidPath p"
  by (cases p) (auto simp: ValidPath_def)

text \<open>What an S3 target asks of AWS: the bucket is the first label of its host and the endpoint the rest, and the credentials
  are its user, if a password is given.\<close>

definition bucket_endpoint :: "string \<Rightarrow> string \<times> string option" where
  "bucket_endpoint host =
     (takeWhile (\<lambda>c. c \<noteq> CHR ''.'') host,
      if CHR ''.'' \<in> set host then Some (drop 1 (dropWhile (\<lambda>c. c \<noteq> CHR ''.'') host)) else None)"

definition target_credentials :: "URL \<Rightarrow> (string \<times> string) option" where
  "target_credentials target =
     (case User target of
        Some ui \<Rightarrow> if ui_passwordSet ui then Some (ui_username ui, ui_password ui) else None
      | None \<Rightarrow> None)"

definition session_error :: "OS \<Rightarrow> URL \<Rightarrow> string option" where
  "session_error os target =
     aws_NewSession os (target_credentials target) (snd (bucket_endpoint (Host target))) (map_of (Query target) ''region'')"

lemma newS3Handler_spec:
  "newS3Handler os hostname hostPath target =
     (case session_error os target of
        Some err \<Rightarrow> Inl (OSError err)
      | None \<Rightarrow>
          if 1 < length (Path target) \<and> \<not> ValidPath (Path target) then Inl (SubInvalidName (Path target))
          else Inr (PathCombinations
            (FileServer (S3 \<lparr>s3_credentials = target_credentials target, s3_endpoint = snd (bucket_endpoint (Host target)),
               s3_region = map_of (Query target) ''region'', s3_bucket = fst (bucket_endpoint (Host target)),
               s3_prefix = (if length (Path target) \<le> 1 then ''.'' else Path target)\<rparr>))
            hostname hostPath []))"
proof -
  let ?h = "Host target" let ?t = "takeWhile (\<lambda>c. c \<noteq> CHR ''.'') ?h"
  have creds: "(case Password (User target) of Some secret \<Rightarrow> Some (Username (User target), secret) | None \<Rightarrow> None) = target_credentials target"
    by (simp add: target_credentials_def Password_def Username_def split: option.splits)
  have contains: "Contains ?h ''.'' \<longleftrightarrow> CHR ''.'' \<in> set ?h" by (simp add: Contains_def Index_single)
  have whole: "?t = ?h" if "CHR ''.'' \<notin> set ?h" using that by (auto simp: takeWhile_eq_all_conv)
  have "SplitN ?h ''.'' 2 = [?t, drop 1 (dropWhile (\<lambda>c. c \<noteq> CHR ''.'') ?h)]" if "CHR ''.'' \<in> set ?h"
    using that by (simp add: SplitN_2 Index_single takeWhile_eq_take [symmetric] dropWhile_eq_drop)
  then have bucket: "(if Contains ?h ''.'' then (SplitN ?h ''.'' 2 ! 0, Some (SplitN ?h ''.'' 2 ! 1)) else (?h, None)) = bucket_endpoint ?h"
    by (cases "CHR ''.'' \<in> set ?h") (simp_all add: bucket_endpoint_def contains whole)
  have "ValidPath ''.''" by (simp add: ValidPath_def)
  then show ?thesis
    unfolding newS3Handler_def Let_def creds bucket session_error_def case_prod_beta by (auto split: option.splits)
qed

text \<open>
  C23. When the factory fails, and when it does not. Every outcome happens exactly in its case: a scheme is unknown only if it is none of the
  ten; a handler is built for every target of the other schemes, for a \<open>php\<close> target if an address is configured, its file is found and can be made absolute, and
  for an \<open>s3\<close> target if a session can be made and the prefix, if it names one, is a valid name of an \<open>fs.FS\<close>; the errors of
  the operating system, of AWS and of \<open>fs.Sub\<close> are passed on.
\<close>
theorem HandlerFactory_errors:
  "(let endpoint = Host target @ Path target in
    case HandlerFactory_Handler os hf hostname target of
      Inr h \<Rightarrow>
        Scheme target \<in> {''file'', ''http'', ''https'', ''redirect'', ''sftp'', ''go-wasm'', ''tail'', ''tail-new''} \<or>
        Scheme target = ''s3'' \<and> session_error os target = None \<and> (length (Path target) \<le> 1 \<or> ValidPath (Path target)) \<or>
        Scheme target = ''php'' \<and> is_ok (os_Stat os endpoint) \<and> (rooted endpoint \<or> is_ok (os_Getwd os)) \<and> phpClientFactory hf \<noteq> None
    | Inl (UnknownScheme s) \<Rightarrow> s = Scheme target \<and>
        s \<notin> {''file'', ''http'', ''https'', ''redirect'', ''s3'', ''sftp'', ''php'', ''go-wasm'', ''tail'', ''tail-new''}
    | Inl PHPNotConfigured \<Rightarrow> Scheme target = ''php'' \<and> phpClientFactory hf = None
    | Inl (SubInvalidName p) \<Rightarrow> Scheme target = ''s3'' \<and> p = Path target \<and> session_error os target = None \<and> 1 < length p \<and> \<not> ValidPath p
    | Inl (OSError err) \<Rightarrow>
        Scheme target = ''php'' \<and> phpClientFactory hf \<noteq> None \<and>
          (os_Stat os endpoint = Inl err \<or> is_ok (os_Stat os endpoint) \<and> \<not> rooted endpoint \<and> os_Getwd os = Inl err) \<or>
        Scheme target = ''s3'' \<and> session_error os target = Some err)"
proof -
  obtain name path where split: "splitHostnameAndPath hostname = (name, path)" by fastforce
  show ?thesis
  proof (cases "Scheme target = ''s3'' \<or> Scheme target = ''php''")
    case False
    then show ?thesis
      by (simp add: HandlerFactory_Handler_def newSftpHandler_def Let_def split)
  next
    case True
    then show ?thesis
    proof
      assume "Scheme target = ''s3''"
      then show ?thesis
        by (auto simp: HandlerFactory_Handler_def newS3Handler_spec Let_def split not_less split: option.splits)
    next
      assume "Scheme target = ''php''"
      then show ?thesis
        by (cases "os_Getwd os") (auto simp: HandlerFactory_Handler_def newPHPHandler_def Abs_def Let_def split is_ok_def
            split: option.splits sum.splits if_splits)
    qed
  qed
qed

text \<open>
  An S3 target with a prefix is never served: the path of a target with a host starts with a slash,
  which \<open>fs.Sub\<close> rejects, so the factory returns an error for every path longer than the slash.
\<close>
theorem s3_prefix_rejected:
  assumes "Scheme target = ''s3''" "HasPrefix (Path target) ''/''" "1 < length (Path target)"
    and "\<And>c e r. aws_NewSession os c e r = None"
  shows "HandlerFactory_Handler os hf hostname target = Inl (SubInvalidName (Path target))"
  using assms ValidPath_rooted [OF assms(2)]
  by (simp add: HandlerFactory_Handler_def newS3Handler_def Let_def split: prod.splits)

definition empty_OS :: OS where
  "empty_OS = \<lparr>os_Stat = (\<lambda>_. Inl ''no such file''), os_Getwd = Inr ''/'', aws_NewSession = (\<lambda>_ _ _. None)\<rparr>"

theorem s3_prefix_rejected_witness:
  "\<exists>u. URL_Parse ''s3://public-bucket/prefix?region=eu-central-1'' = Inr u \<and>
     HandlerFactory_Handler empty_OS \<lparr>phpClientFactory = None\<rparr> ''public-bucket.com'' u = Inl (SubInvalidName ''/prefix'')"
proof -
  let ?u = "URL_zero\<lparr>Scheme := ''s3'', Host := ''public-bucket'', Path := ''/prefix'', RawQuery := ''region=eu-central-1''\<rparr>"
  have "URL_Parse ''s3://public-bucket/prefix?region=eu-central-1'' = Inr ?u" by code_simp
  then show ?thesis
    using s3_prefix_rejected [of ?u empty_OS] by (simp add: URL_zero_def empty_OS_def)
qed

text \<open>
  The host path of a wildcard route is never stripped: it is compared literally, so a request path without
  wildcard characters goes to the handler in full, and a directory served at \<open>example.com/*/files\<close> is
  asked for \<open>/a/files/x\<close> instead of \<open>/x\<close>.
\<close>
theorem wildcard_host_path_not_stripped:
  assumes "ContainsAny hostPath ''*?[]''" "HasPrefix (Path u) ''/''"
    and "\<not> ContainsAny (Path u) ''*?[]''" "\<not> ContainsAny (RawPath u) ''*?[]''"
  shows "stripHostPath hostPath u = u"
proof -
  have "TrimPrefix s hostPath = s" if "\<not> ContainsAny s ''*?[]''" for s
  proof (rule TrimPrefix_not, rule notI)
    assume "HasPrefix s hostPath"
    then have "set hostPath \<subseteq> set s" by (simp add: HasPrefix_prefix set_mono_prefix)
    with assms(1) that show False unfolding ContainsAny_def list_ex_iff by blast
  qed
  with assms show ?thesis by (simp add: stripHostPath_def Let_def)
qed

theorem wildcard_host_path_not_stripped_witness:
  "stripHostPath ''/*/files'' (URL_zero\<lparr>Path := ''/a/files/x''\<rparr>) = URL_zero\<lparr>Path := ''/a/files/x''\<rparr>"
  by (rule wildcard_host_path_not_stripped) (simp_all add: ContainsAny_def URL_zero_def)

section \<open>Go WebAssembly\<close>

lemma path_Join_file:
  assumes "segs \<noteq> []" "\<forall>s \<in> set segs. plain_seg s" "plain_seg f"
  shows "path_Join [CHR ''/'' # Join segs ''/'', f] = CHR ''/'' # Join segs ''/'' @ ''/'' @ f"
proof -
  have "f \<noteq> []" using assms(3) by (simp add: plain_seg_def)
  then show ?thesis
    using Clean_plain [of "segs @ [f]"] assms by (simp add: path_Join_def Join_append)
qed

lemma redirect_location_dir:
  assumes "Clean (p @ ''/'') = p" "CHR ''?'' \<notin> set p" "HasPrefix p ''/''" "\<not> HasSuffix p ''/''"
  shows "redirect_location old (p @ ''/'') = p @ ''/''"
proof -
  have q: "\<forall>c \<in> set (p @ ''/''). c \<noteq> CHR ''?''" using assms(2) by auto
  have pre: "HasPrefix (p @ ''/'') ''/''" using assms(3) by (cases p) auto
  have tw: "takeWhile (\<lambda>c. c \<noteq> CHR ''?'') (p @ ''/'') = p @ ''/''" using q by (simp add: takeWhile_eq_all_conv)
  have dw: "dropWhile (\<lambda>c. c \<noteq> CHR ''?'') (p @ ''/'') = []" using q by (simp only: dropWhile_eq_Nil_conv)
  have "HasSuffix (p @ ''/'') ''/''" by (simp add: HasSuffix_single)
  then show ?thesis
    unfolding redirect_location_def Let_def by (simp only: pre tw dw assms if_True prod.case simp_thms split: sum.split) simp
qed

text \<open>
  A Go WebAssembly target below a host path. The program is served next to the host path, the host path itself
  is redirected to the page below it, and unknown paths are not found; but the requests for the page and for the
  loader script panic, because they open the embedded files under names that do not exist.
\<close>
theorem go_wasm_below_path:
  assumes "segs \<noteq> []" "\<forall>s \<in> set segs. plain_seg s" "hp = CHR ''/'' # Join segs ''/''" "CHR ''?'' \<notin> set hp"
  shows "(let p = Path (r_URL r); out = GoWasm_serve be hp f r h in
    if p = hp @ ''/'' \<or> p = hp @ ''/go-wasm.js'' then out = Panic
    else if p = hp @ ''/main.wasm'' then out = Ret (be_ServeFile be f r h)
    else if p = hp then
      (\<exists>a. out = Ret a \<and> an_Status a = Some StatusSeeOther \<and>
         Header_Get (an_Header a) ''Location'' = hexEscapeNonASCII (hp @ ''/''))
    else out = Ret (error_answer h ''Not found'' StatusNotFound))"
proof -
  have clean: "Clean hp = hp" "Clean (hp @ ''/'') = hp"
    using assms(1-3) Clean_plain_slash [OF assms(1,2)] by (simp_all add: Clean_plain)
  have js: "path_Join [hp, ''go-wasm.js''] = hp @ ''/go-wasm.js''"
    using path_Join_file [OF assms(1,2), of "''go-wasm.js''"] by (simp add: assms(3) plain_seg_def)
  have wasm: "path_Join [hp, ''main.wasm''] = hp @ ''/main.wasm''"
    using path_Join_file [OF assms(1,2), of "''main.wasm''"] by (simp add: assms(3) plain_seg_def)
  have "\<not> HasSuffix hp ''/''" "HasPrefix hp ''/''"
    using last_Join_plain [OF assms(1,2)] Join_plain_not_Nil [OF assms(1,2)] by (simp_all add: assms(3) HasSuffix_single)
  then have loc: "redirect_location old (hp @ ''/'') = hp @ ''/''" for old
    using redirect_location_dir [OF clean(2) assms(4)] by simp
  note defs = GoWasm_serve_def clean(1) js wasm Let_def assets_Open_def http_Redirect_def loc
  show ?thesis by (simp add: defs)
qed

theorem go_wasm_below_path_witness:
  "GoWasm_serve idle_backends ''/app'' ''m.wasm'' (get_request ''a.com'' ''/app/'') no_headers = Panic \<and>
   GoWasm_serve idle_backends ''/app'' ''m.wasm'' (get_request ''a.com'' ''/x'') no_headers = Ret (error_answer no_headers ''Not found'' StatusNotFound)"
  using go_wasm_below_path [of "[''app'']" "''/app''" "get_request ''a.com'' ''/app/''" idle_backends "''m.wasm''" no_headers]
    go_wasm_below_path [of "[''app'']" "''/app''" "get_request ''a.com'' ''/x''" idle_backends "''m.wasm''" no_headers]
  by (simp add: plain_seg_def get_request_def URL_zero_def)

text \<open>
  Without a host path a Go WebAssembly target serves nothing: for a bare hostname every request path, which
  starts with a slash, is answered with 404, because the paths compared with are relative; with
  the host path \<open>/\<close> the request for \<open>/\<close> is redirected to \<open>/\<close> again.
\<close>
theorem go_wasm_needs_host_path:
  assumes "HasPrefix (Path (r_URL r)) ''/''"
  shows "GoWasm_serve be [] f r h = Ret (error_answer h ''Not found'' StatusNotFound)"
    and "Path (r_URL r) = ''/'' \<Longrightarrow>
      \<exists>a. GoWasm_serve be ''/'' f r h = Ret a \<and> Header_Get (an_Header a) ''Location'' = ''/''"
proof -
  have c: "Clean [] = ''.''" "path_Join [[], ''go-wasm.js''] = ''go-wasm.js''" "path_Join [[], ''main.wasm''] = ''main.wasm''"
    by code_simp+
  show "GoWasm_serve be [] f r h = Ret (error_answer h ''Not found'' StatusNotFound)"
    using assms by (auto simp: GoWasm_serve_def c Let_def)
  have c2: "Clean ''/'' = ''/''" "redirect_location ''/'' ''//'' = ''/''" "hexEscapeNonASCII ''/'' = ''/''"
    by code_simp+
  then show "Path (r_URL r) = ''/'' \<Longrightarrow>
      \<exists>a. GoWasm_serve be ''/'' f r h = Ret a \<and> Header_Get (an_Header a) ''Location'' = ''/''"
    by (simp add: GoWasm_serve_def http_Redirect_def Let_def)
qed

theorem go_wasm_needs_host_path_witness:
  "GoWasm_serve idle_backends [] ''build.wasm'' (get_request ''golang-project.com'' ''/'') no_headers =
     Ret (error_answer no_headers ''Not found'' StatusNotFound)"
  using go_wasm_needs_host_path(1) [of "get_request ''golang-project.com'' ''/''" idle_backends]
  by (simp add: get_request_def URL_zero_def)

section \<open>Tailing\<close>

lemma tail_loop_lines:
  "tail_loop (map (\<lambda>l. TailLine l None) ls @ es) =
     (map (\<lambda>l. l @ [CHR 0x0A]) ls @ fst (tail_loop es), snd (tail_loop es))"
  by (induction ls) (auto split: prod.splits)

lemma fold_Write_sent:
  "w_Sent w \<noteq> None \<Longrightarrow> fold (\<lambda>p w. Write w p) ps w = w\<lparr>w_Body := w_Body w @ concat ps\<rparr>"
  by (induction ps arbitrary: w) (simp_all add: Write_sent)

text \<open>
  The tail handler forwards lines. Whatever lines have arrived without error, the body holds each of them with
  a line feed, in order, under status 200; nothing that comes after the end of the request is written.
\<close>
theorem tail_forwards_lines:
  assumes "be_TailFile be f whence = Inr (map (\<lambda>l. TailLine l None) ls @ rest)"
    and "rest = [] \<or> hd rest = ContextDone" and "w_Sent w = None"
  shows "\<exists>out h. Handler_ServeHTTP be (Tail f whence) w r = Ret out \<and> w_Sent out = Some (StatusOK, h) \<and>
     w_Body out = w_Body w @ concat (map (\<lambda>l. l @ [CHR 0x0A]) ls)"
proof -
  have "fst (tail_loop rest) = []" using assms(2) by (cases rest) auto
  with assms(1,3) show ?thesis
    by (simp add: Handler_ServeHTTP_def Tail_serve_def reply_def tail_loop_lines fold_Write_sent WriteHeader_def Let_def)
qed

theorem tail_forwards_lines_witness:
  "\<exists>out h. Handler_ServeHTTP (idle_backends\<lparr>be_TailFile := (\<lambda>f wh. Inr [TailLine ''a'' None, ContextDone, TailLine ''b'' None])\<rparr>)
     (Tail ''log'' SeekEnd) Response_zero (get_request ''a.com'' ''/'') = Ret out \<and> w_Sent out = Some (StatusOK, h) \<and>
     w_Body out = [CHR ''a'', CHR 0x0A]"
  using tail_forwards_lines [of "idle_backends\<lparr>be_TailFile := (\<lambda>f wh. Inr [TailLine ''a'' None, ContextDone, TailLine ''b'' None])\<rparr>"
      "''log''" SeekEnd "[''a'']" "[ContextDone, TailLine ''b'' None]" Response_zero "get_request ''a.com'' ''/''"]
  by (simp add: Response_zero_def)

end
