(* ===== verification/Server.thy ===== *)
theory Server
  imports Mux DockerWatch Handlers
begin

text \<open>
  The server, \<open>src/pkg/server/server.go\<close>: it owns the router, turns configuration events into handlers that it
  registers under their hostname and printed target, and serves requests from the router. The log
  is part of the state. Listeners run in goroutines of their own; every event is processed under the
  router's lock, so what the router sees is an interleaving of the event streams.
\<close>

section \<open>State\<close>

record ServerConfig =
  sc_ConfigFile :: string
  sc_CertsDir :: string
  sc_NoCert :: bool
  sc_WatchDockerEvents :: bool
  sc_EnableHTTP2 :: bool
  sc_DiscardHeaders :: "string list"
  sc_ExtraHeaders :: "(string \<times> string) list"
  sc_PHPAddr :: string

datatype log_entry =
    LogConfig string
  | LogFactory factory_error
  | LogURL url_error
  | LogConfigError config_error
  | LogDocker docker_error
  | LogHost string

record Server =
  sv_mux :: "Handler Mux"
  sv_config :: ServerConfig
  sv_factory :: HandlerFactory
  sv_log :: "log_entry list"

definition Println :: "log_entry \<Rightarrow> Server \<Rightarrow> Server" where
  "Println l s = s\<lparr>sv_log := sv_log s @ [l]\<rparr>"

section \<open>Configuration events\<close>

definition ProcessEvent :: "OS \<Rightarrow> ConfigEvent \<Rightarrow> Server \<Rightarrow> Server" where
  "ProcessEvent os e s0 =
     (let s = Println (LogConfig (''CONFIG: '' @ ConfigEvent_String e)) s0;
          hostname = ce_Hostname (ev_ConfigEntry e);
          target = ce_Target (ev_ConfigEntry e)
      in if \<not> ev_Up e then s\<lparr>sv_mux := Mux_Remove (sv_mux s) hostname (URL_String target)\<rparr>
         else
           (case HandlerFactory_Handler os (sv_factory s) hostname target of
              Inl err \<Rightarrow>
                Println (LogConfig (''CONFIG: '' @ ConfigEvent_String (e\<lparr>ev_Up := False\<rparr>))) (Println (LogFactory err) s)
            | Inr handler \<Rightarrow> s\<lparr>sv_mux := Mux_Add (sv_mux s) hostname (Some handler) (URL_String target)\<rparr>))"

definition ProcessEvents :: "OS \<Rightarrow> ConfigEvent list \<Rightarrow> Server \<Rightarrow> Server" where
  "ProcessEvents os events s = fold (ProcessEvent os) events s"

text \<open>\<open>Listen\<close> on the batches received until the channel is closed.\<close>

definition Listen :: "OS \<Rightarrow> ConfigEvent list list \<Rightarrow> Server \<Rightarrow> Server" where
  "Listen os batches s = fold (ProcessEvents os) batches s"

section \<open>Construction\<close>

text \<open>\<open>newConfig\<close> is the result of \<open>config.NewConfig\<close>; the server starts listening to the configuration it returns.\<close>

definition loadConfig :: "config_error + Config \<Rightarrow> Server \<Rightarrow> (config_error option \<times> Config option)" where
  "loadConfig newConfig s =
     (if length (sc_ConfigFile (sv_config s)) = 0 then (None, None)
      else (case newConfig of Inl err \<Rightarrow> (Some err, None) | Inr cfg \<Rightarrow> (None, Some cfg)))"

text \<open>The answers of the Docker daemon: creating the client, listing the containers, subscribing to events.\<close>

record Docker =
  dk_New :: "string option"
  dk_List :: "string + (string \<times> (string + Container)) list"
  dk_Events :: "string option"

definition watchDockerEvents :: "OS \<Rightarrow> Docker \<Rightarrow> Server \<Rightarrow> (docker_error option \<times> Server) outcome" where
  "watchDockerEvents os docker s =
     (case NewDockerWatch (dk_New docker) of
        Inl err \<Rightarrow> Ret (Some err, s)
      | Inr _ \<Rightarrow>
         bind_outcome (GetActiveContainers (dk_List docker)) (\<lambda>r.
           case r of
             Inl err \<Rightarrow> Ret (Some err, s)
           | Inr events \<Rightarrow>
               (let s' = ProcessEvents os events s in
                case GetConfigEvents (dk_Events docker) of
                  Inl err \<Rightarrow> Ret (Some err, s')
                | Inr _ \<Rightarrow> Ret (None, s'))))"

definition NewServer :: "OS \<Rightarrow> config_error + Config \<Rightarrow> Docker \<Rightarrow> ServerConfig \<Rightarrow> (Server \<times> Config option) outcome" where
  "NewServer os newConfig docker cfg =
     (let (phpaddr, logs) = (case URL_Parse (sc_PHPAddr cfg) of Inl e \<Rightarrow> (None, [LogURL e]) | Inr u \<Rightarrow> (Some u, []));
          s = \<lparr>sv_mux = Mux_zero, sv_config = cfg, sv_factory = NewHandlerFactory phpaddr, sv_log = logs\<rparr>;
          (err, watched) = (if length (sc_ConfigFile cfg) > 0 then loadConfig newConfig s else (None, None));
          s1 = (case err of None \<Rightarrow> s | Some e \<Rightarrow> Println (LogConfigError e) s)
      in if sc_WatchDockerEvents cfg then
           bind_outcome (watchDockerEvents os docker s1) (\<lambda>(derr, s2).
             Ret (case derr of None \<Rightarrow> s2 | Some e \<Rightarrow> Println (LogDocker e) s2, watched))
         else Ret (s1, watched))"

section \<open>Requests\<close>

definition ValidateHost :: "Server \<Rightarrow> string \<Rightarrow> string option outcome" where
  "ValidateHost s host =
     bind_outcome (Mux_ContainsHost (sv_mux s) host) (\<lambda>b.
       Ret (if \<not> b then Some (''unknown hostname: '' @ host) else None))"

definition updateRequestHeader :: "ServerConfig \<Rightarrow> Request \<Rightarrow> Header" where
  "updateRequestHeader cfg r =
     fold (\<lambda>(h, v) acc. Header_Add acc h v) (sc_ExtraHeaders cfg)
       (fold (\<lambda>h acc. Header_Del acc h) (sc_DiscardHeaders cfg)
          (Header_Set (Header_Set (r_Header r) ''X-Forwarded-Host'' (r_Host r))
             ''x-razvhost-remoteaddr'' (r_RemoteAddr r)))"

definition updateHeaders :: "ServerConfig \<Rightarrow> Header \<Rightarrow> Request \<Rightarrow> Header \<times> Request" where
  "updateHeaders cfg wh r =
     (fold (\<lambda>(h, v) acc. Header_Add acc h v) (sc_ExtraHeaders cfg) wh,
      r\<lparr>r_Header := updateRequestHeader cfg r\<rparr>)"

definition Server_ServeHTTP :: "Backends \<Rightarrow> Server \<Rightarrow> Response \<Rightarrow> Request \<Rightarrow> (Response \<times> Server) outcome" where
  "Server_ServeHTTP be s w r =
     bind_outcome (Mux_Handler (sv_mux s) (r_Host r @ Path (r_URL r))) (\<lambda>(handler, m).
       let s' = s\<lparr>sv_mux := m\<rparr> in
       case handler of
         None \<Rightarrow> Ret (http_Error w (''Cannot serve path: '' @ r_Host r @ Path (r_URL r)) StatusForbidden, s')
       | Some h \<Rightarrow>
           (let (wh, r') = updateHeaders (sv_config s) (w_Header w) r in
            bind_outcome (Handler_ServeHTTP be h (w\<lparr>w_Header := wh\<rparr>) r') (\<lambda>w'. Ret (w', s'))))"

text \<open>The same request served to a writer that wraps the plain one.\<close>

definition Server_answer :: "Backends \<Rightarrow> Server \<Rightarrow> Header \<Rightarrow> Request \<Rightarrow> (Answer \<times> Server) outcome" where
  "Server_answer be s wh0 r =
     bind_outcome (Mux_Handler (sv_mux s) (r_Host r @ Path (r_URL r))) (\<lambda>(handler, m).
       let s' = s\<lparr>sv_mux := m\<rparr> in
       case handler of
         None \<Rightarrow> Ret (error_answer wh0 (''Cannot serve path: '' @ r_Host r @ Path (r_URL r)) StatusForbidden, s')
       | Some h \<Rightarrow>
           (let (wh, r') = updateHeaders (sv_config s) wh0 r in
            bind_outcome (Handler_answer be h wh r') (\<lambda>a. Ret (a, s'))))"

text \<open>The handler of the debug interface: the first segment of the path is the hostname.\<close>

definition debugRequest :: "Request \<Rightarrow> string \<Rightarrow> Request" where
  "debugRequest r host =
     r\<lparr>r_Host := host,
       r_URL := (r_URL r)\<lparr>Path := TrimPrefix (Path (r_URL r)) (''/'' @ host),
                          RawPath := TrimPrefix (RawPath (r_URL r)) (''/'' @ host)\<rparr>\<rparr>"

definition Debug_ServeHTTP :: "Backends \<Rightarrow> Server \<Rightarrow> Response \<Rightarrow> Request \<Rightarrow> (Response \<times> Server) outcome" where
  "Debug_ServeHTTP be s w r =
     (case SplitN (Path (r_URL r)) ''/'' 3 of
        _ # host # _ \<Rightarrow>
          bind_outcome (Server_answer be s (w_Header w) (debugRequest r host)) (\<lambda>(a, s').
            Ret (pathPrefix_respond (be_detect be) (be_tokenize be)
                   (NewPathPrefixHTMLResponseWriter (Host (r_URL r)) (''/'' @ host) [] (w\<lparr>w_Header := an_Header a\<rparr>))
                   (an_Status a) (an_Body a), s'))
      | _ \<Rightarrow> Ret (http_Error w ''Forbidden'' StatusForbidden, s))"

section \<open>Events as operations on the router\<close>

definition event_op :: "OS \<Rightarrow> HandlerFactory \<Rightarrow> ConfigEvent \<Rightarrow> Handler option route_op list" where
  "event_op os hf e =
     (let hostname = ce_Hostname (ev_ConfigEntry e); target = ce_Target (ev_ConfigEntry e) in
      if \<not> ev_Up e then [RouteDown hostname (URL_String target)]
      else (case HandlerFactory_Handler os hf hostname target of
              Inl err \<Rightarrow> [] | Inr handler \<Rightarrow> [RouteUp hostname (Some handler) (URL_String target)]))"

abbreviation event_ops :: "OS \<Rightarrow> HandlerFactory \<Rightarrow> ConfigEvent list \<Rightarrow> Handler option route_op list" where
  "event_ops os hf events \<equiv> concat (map (event_op os hf) events)"

lemma ProcessEvent_fields:
  "sv_factory (ProcessEvent os e s) = sv_factory s" "sv_config (ProcessEvent os e s) = sv_config s"
  "sv_mux (ProcessEvent os e s) = fold router.apply_op (event_op os (sv_factory s) e) (sv_mux s)"
  by (simp_all add: ProcessEvent_def event_op_def Println_def Let_def split: sum.splits)

lemma ProcessEvents_simps [simp]:
  "ProcessEvents os [] s = s"
  "ProcessEvents os (e # es) s = ProcessEvents os es (ProcessEvent os e s)"
  "ProcessEvents os (xs @ ys) s = ProcessEvents os ys (ProcessEvents os xs s)"
  by (simp_all add: ProcessEvents_def)

lemma ProcessEvents_fields:
  "sv_factory (ProcessEvents os es s) = sv_factory s" "sv_config (ProcessEvents os es s) = sv_config s"
  "sv_mux (ProcessEvents os es s) = fold router.apply_op (event_ops os (sv_factory s) es) (sv_mux s)"
  by (induction es arbitrary: s) (simp_all add: ProcessEvent_fields)

lemma Listen_ProcessEvents: "Listen os batches s = ProcessEvents os (concat batches) s"
  by (induction batches arbitrary: s) (simp_all add: Listen_def)

text \<open>What the router's contract says about events, through its interpretation.\<close>

lemma ProcessEvents_targets:
  assumes "wf_mux (sv_mux s)"
  shows "wf_mux (sv_mux (ProcessEvents os es s))"
    and "mux_targets (sv_mux (ProcessEvents os es s)) =
      fold targets_op (event_ops os (sv_factory s) es) (mux_targets (sv_mux s))"
  using router.apply_ops_refine [OF assms] by (simp_all add: ProcessEvents_fields)

section \<open>Counting routes\<close>

definition accepted :: "OS \<Rightarrow> HandlerFactory \<Rightarrow> ConfigEntry list \<Rightarrow> ConfigEntry list" where
  "accepted os hf es =
     filter (\<lambda>e. case HandlerFactory_Handler os hf (ce_Hostname e) (ce_Target e) of Inl _ \<Rightarrow> False | Inr _ \<Rightarrow> True) es"

definition routes :: "ConfigEntry list \<Rightarrow> targets" where
  "routes es p = mset (map (\<lambda>e. URL_String (ce_Target e)) (filter (\<lambda>e. ce_Hostname e = p) es))"

definition occs :: "ConfigEntry list \<Rightarrow> string \<times> string \<Rightarrow> nat" where
  "occs es k = count (mset (map key es)) k"

lemma occs_simps [simp]:
  "occs [] k = 0" "occs (e # es) k = (if key e = k then 1 else 0) + occs es k"
  "occs (xs @ ys) k = occs xs k + occs ys k"
  by (simp_all add: occs_def)

lemma count_routes: "count (routes es p) i = occs es (p, i)"
  by (induction es) (auto simp: routes_def key_def)

lemma occs_filter: "occs (filter (\<lambda>e. P (key e)) es) k = (if P k then occs es k else 0)"
  by (induction es) auto

lemma occs_0_iff: "occs es k = 0 \<longleftrightarrow> k \<notin> keys es"
  by (auto simp: keys_def occs_def count_eq_zero_iff)

lemma accepted_filter: "accepted os hf (filter P es) = filter P (accepted os hf es)"
  by (simp add: accepted_def conj_commute)

lemma occs_accepted_le: "occs (accepted os hf es) k \<le> occs es k"
  by (induction es) (auto simp: accepted_def)

lemma event_ops_up:
  "list_all (\<lambda>x. \<exists>p h i. x = RouteUp p h i) (event_ops os hf (toEvents es True))"
  "ups (event_ops os hf (toEvents es True)) k = occs (accepted os hf es) k"
  by (induction es) (auto simp: event_op_def accepted_def key_def Let_def split: sum.splits)

lemma event_ops_down:
  "list_all (\<lambda>x. \<exists>p i. x = RouteDown p i) (event_ops os hf (toEvents es False))"
  "downs (event_ops os hf (toEvents es False)) k = occs es k"
  by (induction es) (auto simp: event_op_def key_def Let_def)

lemma count_up_down:
  "count (fold targets_op (event_ops os hf (toEvents us True @ toEvents ds False)) t p) i =
     count (t p) i + occs (accepted os hf us) (p, i) - occs ds (p, i)"
  by (simp add: count_ups [OF event_ops_up(1)] count_downs [OF event_ops_down(1)] event_ops_up(2) event_ops_down(2))

section \<open>Synchronisation with the configuration\<close>

text \<open>A server holds a configuration when its router is well formed and holds the accepted entries.\<close>

definition holds :: "OS \<Rightarrow> ConfigEntry list \<Rightarrow> Server \<Rightarrow> bool" where
  "holds os es s \<longleftrightarrow> wf_mux (sv_mux s) \<and> mux_targets (sv_mux s) = routes (accepted os (sv_factory s) es)"

lemma count_change:
  "count (fold targets_op (event_ops os hf (changeEvents prev new)) (routes (accepted os hf prev)) p) i =
     (if (p, i) \<in> keys prev \<inter> keys new then occs (accepted os hf prev) (p, i) else occs (accepted os hf new) (p, i))"
proof -
  have le: "occs (accepted os hf prev) (p, i) \<le> occs prev (p, i)" by (rule occs_accepted_le)
  have 0: "occs (accepted os hf es) (p, i) = 0" if "(p, i) \<notin> keys es" for es
    using that occs_accepted_le [of os hf es "(p, i)"] occs_0_iff [of es "(p, i)"] by simp
  show ?thesis
    unfolding changeEvents_eq count_up_down count_routes accepted_filter
    using le 0 [of prev] 0 [of new] occs_0_iff [of prev "(p, i)"]
    by (auto simp: occs_filter [where P = "\<lambda>k. k \<notin> keys prev"] occs_filter [where P = "\<lambda>k. k \<notin> keys new"])
qed

lemma count_reload:
  assumes "holds os prev s" "\<forall>k \<in> keys prev \<inter> keys new. occs (accepted os (sv_factory s) prev) k = occs (accepted os (sv_factory s) new) k"
  shows "holds os new (ProcessEvents os (changeEvents prev new) s)"
proof -
  have "fold targets_op (event_ops os (sv_factory s) (changeEvents prev new)) (routes (accepted os (sv_factory s) prev)) p =
      routes (accepted os (sv_factory s) new) p" for p
    using assms(2) by (intro multiset_eqI) (auto simp: count_change count_routes)
  then show ?thesis
    using assms(1) ProcessEvents_targets [of s] by (auto simp: holds_def ProcessEvents_fields)
qed

text \<open>
  A reload brings the router to the new configuration. When the router holds the accepted entries of the
  previous configuration and every pair that both configurations contain occurs equally often in both,
  processing the change events leaves exactly the accepted entries of the new one.
\<close>
theorem reload_syncs_routes:
  assumes "holds os prev s"
    and "\<forall>k \<in> keys prev \<inter> keys new. occs (accepted os (sv_factory s) prev) k = occs (accepted os (sv_factory s) new) k"
  shows "holds os new (ProcessEvents os (changeEvents prev new) s)"
  using assms by (rule count_reload)

definition plain_entry :: "string \<Rightarrow> string \<Rightarrow> ConfigEntry" where
  "plain_entry hostname host = \<lparr>ce_Hostname = hostname, ce_Target = URL_zero\<lparr>Scheme := ''http'', Host := host\<rparr>\<rparr>"

definition empty_server :: Server where
  "empty_server = \<lparr>sv_mux = Mux_zero, sv_config = \<lparr>sc_ConfigFile = ''config'', sc_CertsDir = ''certs'', sc_NoCert = False,
     sc_WatchDockerEvents = False, sc_EnableHTTP2 = False, sc_DiscardHeaders = [], sc_ExtraHeaders = [], sc_PHPAddr = []\<rparr>,
     sv_factory = \<lparr>phpClientFactory = None\<rparr>, sv_log = []\<rparr>"

lemma holds_empty: "holds os [] empty_server"
  by (auto simp: holds_def empty_server_def mux_targets_def routes_def accepted_def)

theorem reload_syncs_routes_witness:
  "holds empty_OS [plain_entry ''a.com'' ''x'', plain_entry ''b.com'' ''y'']
     (ProcessEvents empty_OS (changeEvents [] [plain_entry ''a.com'' ''x'', plain_entry ''b.com'' ''y'']) empty_server)"
  by (rule reload_syncs_routes [OF holds_empty]) (simp add: keys_def)

lemma prefix_toEvents:
  assumes "prefix evs (toEvents U True @ toEvents D False)"
  obtains us ds where "evs = toEvents us True @ toEvents ds False" "prefix us U" "prefix ds D" "ds = [] \<or> us = U"
proof -
  have part: "\<exists>xs. ys = toEvents xs b \<and> prefix xs es" if "prefix ys (toEvents es b)" for ys es b
    using that take_is_prefix unfolding toEvents_def prefix_def by (metis append_eq_map_conv)
  from assms consider "prefix evs (toEvents U True)" | ys where "evs = toEvents U True @ ys" "prefix ys (toEvents D False)"
    by (auto simp: prefix_append)
  then show ?thesis
  proof cases
    case 1
    then obtain xs where "evs = toEvents xs True" "prefix xs U" using part by blast
    then show ?thesis using that [of xs "[]"] by simp
  next
    case 2
    then obtain xs where "ys = toEvents xs False" "prefix xs D" using part by blast
    with 2 show ?thesis using that [of U xs] by simp
  qed
qed

lemma occs_pos: "e \<in> set es \<Longrightarrow> 0 < occs es (key e)"
  using occs_0_iff [of es "key e"] by (auto simp: keys_def)

lemma occs_avoid: "prefix ds (filter (\<lambda>e. key e \<notin> K) es) \<Longrightarrow> k \<in> K \<Longrightarrow> occs ds k = 0"
  by (auto simp: occs_0_iff keys_def dest!: set_mono_prefix)

text \<open>
  C8. A reload has no outage. When all targets are accepted, then at every moment of processing the change events
  each hostname with entries in both configurations has a route, because the additions come
  before the removals.
\<close>
theorem reload_without_outage:
  assumes "holds os prev s" and "prefix evs (changeEvents prev new)"
    and "accepted os (sv_factory s) prev = prev" "accepted os (sv_factory s) new = new"
    and "e \<in> set prev" "ce_Hostname e = p" and "e' \<in> set new" "ce_Hostname e' = p"
  shows "mux_targets (sv_mux (ProcessEvents os evs s)) p \<noteq> {#}"
proof -
  let ?u = "filter (\<lambda>e. key e \<notin> keys prev) new"
  obtain us ds where evs: "evs = toEvents us True @ toEvents ds False"
    and us: "prefix us ?u" and ds: "prefix ds (filter (\<lambda>e. key e \<notin> keys new) prev)" and full: "ds = [] \<or> us = ?u"
    using assms(2) unfolding changeEvents_eq by (rule prefix_toEvents) (rule that)
  have cnt: "count (mux_targets (sv_mux (ProcessEvents os evs s)) q) i =
      occs prev (q, i) + occs (accepted os (sv_factory s) us) (q, i) - occs ds (q, i)" for q i
    using assms(1,3) ProcessEvents_targets(2) [of s os evs] by (simp add: holds_def evs count_up_down count_routes del: map_append)
  show ?thesis
  proof (cases "ds = []")
    case True
    then have "0 < count (mux_targets (sv_mux (ProcessEvents os evs s)) p) (URL_String (ce_Target e))"
      using occs_pos [OF assms(5)] assms(6) by (simp add: cnt key_def)
    then show ?thesis by auto
  next
    case False
    with full have "accepted os (sv_factory s) us = ?u" using assms(4) by (simp add: accepted_filter)
    moreover have k: "key e' \<in> keys new" using assms(7) by (simp add: keys_def)
    moreover have "0 < occs prev (key e') + occs ?u (key e')"
      using occs_pos [OF assms(7)] occs_0_iff [of prev "key e'"]
      by (auto simp: occs_filter [where P = "\<lambda>k. k \<notin> keys prev"])
    ultimately have "0 < count (mux_targets (sv_mux (ProcessEvents os evs s)) p) (URL_String (ce_Target e'))"
      using occs_avoid [OF ds k] assms(8) by (simp add: cnt key_def)
    then show ?thesis by auto
  qed
qed

text \<open>The proxied targets used in examples are always accepted.\<close>

lemma accepted_plain: "accepted os hf (map (\<lambda>(h, t). plain_entry h t) hts) = map (\<lambda>(h, t). plain_entry h t) hts"
  by (induction hts) (auto simp: accepted_def plain_entry_def HandlerFactory_Handler_def URL_zero_def Let_def split: prod.splits)

lemma server_with_entry: "\<exists>s. holds empty_OS [plain_entry ''a.com'' ''x''] s \<and> sv_factory s = \<lparr>phpClientFactory = None\<rparr>"
proof -
  let ?s = "ProcessEvents empty_OS (changeEvents [] [plain_entry ''a.com'' ''x'']) empty_server"
  have "mux_targets (sv_mux ?s) p = routes (accepted empty_OS (sv_factory empty_server) [plain_entry ''a.com'' ''x'']) p" for p
  proof (rule multiset_eqI)
    fix i
    show "count (mux_targets (sv_mux ?s) p) i = count (routes (accepted empty_OS (sv_factory empty_server) [plain_entry ''a.com'' ''x'']) p) i"
      using ProcessEvents_targets(2) [of empty_server] holds_empty [of empty_OS]
        count_change [of empty_OS "sv_factory empty_server" "[]" "[plain_entry ''a.com'' ''x'']" p i]
      by (simp add: holds_def keys_def count_routes)
  qed
  then have "holds empty_OS [plain_entry ''a.com'' ''x''] ?s"
    using ProcessEvents_targets(1) [of empty_server] holds_empty [of empty_OS]
    by (auto simp: holds_def ProcessEvents_fields)
  moreover have "sv_factory ?s = \<lparr>phpClientFactory = None\<rparr>" by (simp add: ProcessEvents_fields) (simp add: empty_server_def)
  ultimately show ?thesis by blast
qed

theorem reload_without_outage_witness:
  "\<exists>s. holds empty_OS [plain_entry ''a.com'' ''x''] s \<and>
     (\<forall>n. mux_targets (sv_mux (ProcessEvents empty_OS
        (take n (changeEvents [plain_entry ''a.com'' ''x''] [plain_entry ''a.com'' ''y''])) s)) ''a.com'' \<noteq> {#})"
proof -
  obtain s where s: "holds empty_OS [plain_entry ''a.com'' ''x''] s" using server_with_entry by blast
  have acc: "accepted empty_OS (sv_factory s) [plain_entry ''a.com'' t] = [plain_entry ''a.com'' t]" for t
    using accepted_plain [of empty_OS "sv_factory s" "[(''a.com'', t)]"] by simp
  have "mux_targets (sv_mux (ProcessEvents empty_OS
        (take n (changeEvents [plain_entry ''a.com'' ''x''] [plain_entry ''a.com'' ''y''])) s)) ''a.com'' \<noteq> {#}" for n
    by (rule reload_without_outage [OF s take_is_prefix acc acc, of "plain_entry ''a.com'' ''x''" _ "plain_entry ''a.com'' ''y''"])
      (simp_all add: plain_entry_def)
  with s show ?thesis by blast
qed

section \<open>Histories\<close>

text \<open>The batches a configuration sends for a sequence of reloads.\<close>

fun changes :: "ConfigEntry list \<Rightarrow> ConfigEntry list list \<Rightarrow> ConfigEvent list list" where
  "changes prev [] = []"
| "changes prev (new # rest) = changeEvents prev new # changes new rest"

definition accepts :: "OS \<Rightarrow> HandlerFactory \<Rightarrow> ConfigEntry \<Rightarrow> bool" where
  "accepts os hf e = (case HandlerFactory_Handler os hf (ce_Hostname e) (ce_Target e) of Inl _ \<Rightarrow> False | Inr _ \<Rightarrow> True)"

text \<open>Configurations without repeated pairs, whose acceptance only depends on the pair.\<close>

definition regular :: "OS \<Rightarrow> HandlerFactory \<Rightarrow> ConfigEntry list list \<Rightarrow> bool" where
  "regular os hf ess \<longleftrightarrow>
     (\<forall>es \<in> set ess. distinct (map key es)) \<and>
     (\<forall>e \<in> set (concat ess). \<forall>e' \<in> set (concat ess). key e = key e' \<longrightarrow> accepts os hf e = accepts os hf e')"

lemma regular_tl: "regular os hf (es # ess) \<Longrightarrow> regular os hf ess"
  by (auto simp: regular_def)

lemma occs_distinct:
  assumes "distinct (map key es)" "e \<in> set es"
  shows "occs (accepted os hf es) (key e) = (if accepts os hf e then 1 else 0)"
  using assms
proof (induction es)
  case Nil
  then show ?case by simp
next
  case (Cons x es)
  have other: "occs (accepted os hf es) (key x) = 0"
    using Cons.prems(1) by (auto simp: occs_0_iff keys_def accepted_def)
  show ?case
  proof (cases "e = x")
    case True
    with other show ?thesis by (simp add: accepted_def accepts_def split: sum.splits)
  next
    case False
    with Cons.prems(2) have "e \<in> set es" by simp
    moreover with Cons.prems(1) have "key e \<noteq> key x" by (metis distinct.simps(2) image_eqI list.map(2) set_map)
    ultimately show ?thesis using Cons by (simp add: accepted_def split: sum.splits)
  qed
qed

lemma regular_occs:
  assumes "regular os hf (prev # new # rest)" "k \<in> keys prev \<inter> keys new"
  shows "occs (accepted os hf prev) k = occs (accepted os hf new) k"
proof -
  obtain e e' where e: "e \<in> set prev" "key e = k" "e' \<in> set new" "key e' = k"
    using assms(2) by (auto simp: keys_def)
  then have eq: "accepts os hf e = accepts os hf e'"
    using assms(1) unfolding regular_def by (metis Un_iff concat.simps(2) set_append)
  have "distinct (map key prev)" "distinct (map key new)" using assms(1) by (simp_all add: regular_def)
  with e show ?thesis
    using occs_distinct [of prev e os hf] occs_distinct [of new e' os hf] by (simp only: eq)
qed

lemma Listen_simps [simp]: "Listen os [] s = s" "Listen os (b # bs) s = Listen os bs (ProcessEvents os b s)"
  by (simp_all add: Listen_def)

lemma Listen_history:
  assumes "holds os prev s" "regular os (sv_factory s) (prev # hist)"
  shows "holds os (last (prev # hist)) (Listen os (changes prev hist) s)"
  using assms
proof (induction hist arbitrary: prev s)
  case Nil
  then show ?case by simp
next
  case (Cons new hist)
  have "holds os new (ProcessEvents os (changeEvents prev new) s)"
    using Cons.prems regular_occs [OF Cons.prems(2)] by (intro count_reload) auto
  then have "holds os (last (new # hist)) (Listen os (changes new hist) (ProcessEvents os (changeEvents prev new) s))"
    using Cons.prems(2) regular_tl [OF Cons.prems(2)] by (intro Cons.IH) (simp_all add: ProcessEvents_fields)
  then show ?case by simp
qed

lemma accepts_plain: "accepts empty_OS hf (plain_entry h t)"
  by (simp add: accepts_def plain_entry_def HandlerFactory_Handler_def URL_zero_def Let_def split: prod.splits)

text \<open>
  The server follows its configuration. From a server that holds one configuration, listening to the batches of any
  sequence of reloads ends with the router holding the accepted entries of the last configuration, when no
  configuration repeats a pair.
\<close>
theorem server_follows_reloads:
  assumes "holds os prev s" "regular os (sv_factory s) (prev # hist)"
  shows "holds os (last (prev # hist)) (Listen os (changes prev hist) s)"
  using assms by (rule Listen_history)

theorem server_follows_reloads_witness:
  "holds empty_OS [plain_entry ''b.com'' ''y'']
     (Listen empty_OS (changes [] [[plain_entry ''a.com'' ''x''], [plain_entry ''b.com'' ''y'']]) empty_server)"
proof -
  have "regular empty_OS hf [[], [plain_entry ''a.com'' ''x''], [plain_entry ''b.com'' ''y'']]" for hf
    by (auto simp: regular_def accepts_plain)
  from server_follows_reloads [OF holds_empty this] show ?thesis by simp
qed

text \<open>
  A pair that a configuration repeats can leave a route behind. Whatever accepted entry is listed twice, then once, then not
  at all: the reload to once sends nothing, the reload to none removes one of the two registrations,
  and the other stays in the router although the configuration is empty.
\<close>
theorem repeated_entry_leaks_route:
  assumes "holds os [] s" "accepts os (sv_factory s) e"
  shows "mux_targets (sv_mux (Listen os (changes [] [[e, e], [e], []]) s)) = routes [e]"
proof -
  have acc: "accepted os (sv_factory s) [e, e] = [e, e]" using assms(2) by (simp add: accepted_def accepts_def)
  have ch: "changeEvents [] [e, e] = toEvents [e, e] True @ toEvents [] False"
    "changeEvents [e, e] [e] = []" "changeEvents [e] [] = toEvents [] True @ toEvents [e] False"
    by (simp_all add: changeEvents_eq keys_def)
  have "count (mux_targets (sv_mux (Listen os (changes [] [[e, e], [e], []]) s)) p) i = count (routes [e] p) i" for p i
  proof -
    let ?up = "toEvents [e, e] True @ toEvents [] False" and ?down = "toEvents [] True @ toEvents [e] False"
    let ?ops = "event_ops os (sv_factory s)"
    have "Listen os (changes [] [[e, e], [e], []]) s = ProcessEvents os (?up @ ?down) s"
      by (simp only: changes.simps ch Listen_ProcessEvents concat.simps append_Nil append_Nil2)
    then have "mux_targets (sv_mux (Listen os (changes [] [[e, e], [e], []]) s)) =
        fold targets_op (?ops ?down) (fold targets_op (?ops ?up) (routes []))"
      using assms(1) ProcessEvents_targets(2) [of s os "?up @ ?down"] unfolding holds_def
      by (simp only: map_append concat_append fold_append o_apply accepted_def filter.simps)
    then show ?thesis
      by (simp only: count_up_down count_routes acc) (simp add: accepted_def)
  qed
  then show ?thesis by (intro ext multiset_eqI)
qed

theorem repeated_entry_leaks_route_witness:
  "mux_targets (sv_mux (Listen empty_OS (changes []
     [[plain_entry ''a.com'' ''x'', plain_entry ''a.com'' ''x''], [plain_entry ''a.com'' ''x''], []]) empty_server)) ''a.com'' = {#''http://x''#}"
proof -
  from repeated_entry_leaks_route [OF holds_empty accepts_plain] have
    "mux_targets (sv_mux (Listen empty_OS (changes []
     [[plain_entry ''a.com'' ''x'', plain_entry ''a.com'' ''x''], [plain_entry ''a.com'' ''x''], []]) empty_server)) ''a.com'' =
     routes [plain_entry ''a.com'' ''x''] ''a.com''" by (rule fun_cong)
  moreover have "URL_String (ce_Target (plain_entry ''a.com'' ''x'')) = ''http://x''" by code_simp
  ultimately show ?thesis by (simp add: routes_def plain_entry_def)
qed

section \<open>Several event streams\<close>

lemma event_op_key: "x \<in> set (event_op os hf e) \<Longrightarrow> op_key x = key (ev_ConfigEntry e)"
  by (auto simp: event_op_def key_def Let_def split: if_splits sum.splits)

lemma event_ops_keys: "x \<in> set (event_ops os hf es) \<Longrightarrow> op_key x \<in> keys (map ev_ConfigEntry es)"
  using event_op_key by (fastforce simp: keys_def)

text \<open>
  The configuration file and Docker do not disturb each other. When two event streams speak of different
  pairs, the router holds the same after any interleaving of their events as after processing
  one stream and then the other.
\<close>
theorem interleaving_is_irrelevant:
  assumes "wf_mux (sv_mux s)" and "zs \<in> shuffles xs ys"
    and "keys (map ev_ConfigEntry xs) \<inter> keys (map ev_ConfigEntry ys) = {}"
  shows "mux_targets (sv_mux (ProcessEvents os zs s)) = mux_targets (sv_mux (ProcessEvents os (xs @ ys) s))"
proof -
  let ?ops = "event_ops os (sv_factory s)"
  have "?ops zs \<in> shuffles (?ops xs) (?ops ys)" using assms(2) by (rule shuffles_concat_map)
  moreover have "\<forall>x \<in> set (?ops xs). \<forall>y \<in> set (?ops ys). op_key x \<noteq> op_key y"
    using event_ops_keys [of _ os "sv_factory s"] assms(3) by (metis IntI emptyE)
  ultimately show ?thesis
    unfolding ProcessEvents_targets(2) [OF assms(1)] by (simp add: fold_targets_shuffle)
qed

lemma wf_empty_server: "wf_mux (sv_mux empty_server)"
  by (simp add: empty_server_def)

theorem interleaving_is_irrelevant_witness:
  "let up = (\<lambda>h. \<lparr>ev_ConfigEntry = plain_entry h ''x'', ev_Up = True\<rparr>) in
   mux_targets (sv_mux (ProcessEvents empty_OS [up ''a'', up ''c'', up ''b''] empty_server)) =
   mux_targets (sv_mux (ProcessEvents empty_OS ([up ''a'', up ''b''] @ [up ''c'']) empty_server))"
proof -
  let ?up = "\<lambda>h. \<lparr>ev_ConfigEntry = plain_entry h ''x'', ev_Up = True\<rparr>"
  have sh: "[?up ''a'', ?up ''c'', ?up ''b''] \<in> shuffles [?up ''a'', ?up ''b''] [?up ''c'']"
    by (simp add: Cons_in_shuffles_iff)
  have dis: "keys (map ev_ConfigEntry [?up ''a'', ?up ''b'']) \<inter> keys (map ev_ConfigEntry [?up ''c'']) = {}"
    by (simp add: keys_def key_def plain_entry_def)
  from interleaving_is_irrelevant [OF wf_empty_server sh dis, of empty_OS] show ?thesis unfolding Let_def .
qed

text \<open>Events of entries that are all accepted, and the same events with the direction reversed.\<close>

lemma count_toEvents_other:
  "(q, j) \<notin> keys es \<Longrightarrow> count (fold targets_op (event_ops os hf (toEvents es b)) t q) j = count (t q) j"
proof (rule count_fold_other, rule ballI)
  fix x
  assume "(q, j) \<notin> keys es" "x \<in> set (event_ops os hf (toEvents es b))"
  moreover have "op_key x \<in> keys (map ev_ConfigEntry (toEvents es b))" using calculation(2) by (rule event_ops_keys)
  ultimately show "op_key x \<noteq> (q, j)" by (auto simp: filter_toEvents(3))
qed

lemma up_down_restores:
  assumes wf: "wf_mux (sv_mux s)" and acc: "accepted os (sv_factory s) es = es"
    and dis: "keys es \<inter> keys (map ev_ConfigEntry xs) = {}"
  shows "mux_targets (sv_mux (ProcessEvents os (toEvents es True @ xs @ toEvents es False) s)) =
    mux_targets (sv_mux (ProcessEvents os xs s))"
proof (intro ext multiset_eqI)
  fix q j
  let ?hf = "sv_factory s" let ?t = "mux_targets (sv_mux s)"
  let ?up = "fold targets_op (event_ops os ?hf (toEvents es True))"
  let ?x = "fold targets_op (event_ops os ?hf xs)"
  let ?down = "fold targets_op (event_ops os ?hf (toEvents es False))"
  have "count (?down (?x (?up ?t)) q) j = count (?x ?t q) j"
  proof (cases "(q, j) \<in> keys es")
    case True
    then have other: "\<forall>x \<in> set (event_ops os ?hf xs). op_key x \<noteq> (q, j)"
      using event_ops_keys [of _ os ?hf xs] dis by (metis IntI emptyE)
    show ?thesis
      by (simp add: count_downs [OF event_ops_down(1)] count_fold_other [OF other] count_ups [OF event_ops_up(1)]
          event_ops_down(2) event_ops_up(2) acc)
  next
    case False
    then show ?thesis by (simp add: count_toEvents_other count_fold_cong [OF count_toEvents_other])
  qed
  then show "count (mux_targets (sv_mux (ProcessEvents os (toEvents es True @ xs @ toEvents es False) s)) q) j =
    count (mux_targets (sv_mux (ProcessEvents os xs s)) q) j"
    unfolding ProcessEvents_targets(2) [OF wf] by simp
qed

lemma getContainerEvents_entries:
  assumes "getContainerEvents inspect ident b = Ret (Inr evs)"
  obtains es where "evs = toEvents es b" "\<forall>e \<in> set es. Scheme (ce_Target e) = ''http''"
proof -
  from assms consider "evs = []"
    | hosts port u where "URL_Parse (''http://localhost:'' @ port) = Inr u"
        "evs = map (\<lambda>h. \<lparr>ev_ConfigEntry = \<lparr>ce_Hostname = h, ce_Target = u\<rparr>, ev_Up = b\<rparr>) hosts"
    unfolding getContainerEvents_def Let_def by (fastforce split: sum.splits option.splits if_splits)
  then show ?thesis
  proof cases
    case 1
    then show ?thesis using that [of "[]"] by simp
  next
    case 2
    then have u: "URL_Parse (''http:'' @ ''//localhost:'' @ port) = Inr u" by simp
    show ?thesis
      by (rule that [of "map (\<lambda>h. \<lparr>ce_Hostname = h, ce_Target = u\<rparr>) hosts"])
        (use URL_Parse_http [OF u] 2(2) in \<open>auto simp: toEvents_def\<close>)
  qed
qed

lemma accepted_http:
  "\<forall>e \<in> set es. Scheme (ce_Target e) = ''http'' \<Longrightarrow> accepted os hf es = es"
  unfolding accepted_def by (rule filter_True) (auto simp: HandlerFactory_Handler_def Let_def split: prod.splits)

text \<open>
  A container that stops takes back exactly its own routes. Whatever other events happen between its start and its
  stop, if the daemon describes it in the same way at both, the router ends as if the container
  had never been started.
\<close>
theorem container_start_stop:
  assumes "wf_mux (sv_mux s)" and "getContainerEvents inspect ident True = Ret (Inr evs)"
    and "keys (map ev_ConfigEntry evs) \<inter> keys (map ev_ConfigEntry xs) = {}"
  shows "\<exists>evs'. getContainerEvents inspect ident False = Ret (Inr evs') \<and>
    mux_targets (sv_mux (ProcessEvents os (evs @ xs @ evs') s)) = mux_targets (sv_mux (ProcessEvents os xs s))"
proof -
  obtain es where es: "evs = toEvents es True" "\<forall>e \<in> set es. Scheme (ce_Target e) = ''http''"
    using assms(2) by (rule getContainerEvents_entries)
  have "getContainerEvents inspect ident False = Ret (Inr (toEvents es False))"
    using getContainerEvents_mirror [of inspect ident] assms(2) es(1) by (simp add: toEvents_def)
  moreover have "keys es \<inter> keys (map ev_ConfigEntry xs) = {}" using assms(3) es(1) by (simp add: filter_toEvents)
  ultimately show ?thesis
    using up_down_restores [OF assms(1) accepted_http [OF es(2)]] es(1) by blast
qed

theorem container_start_stop_witness:
  "\<exists>evs evs'. getContainerEvents (Inr (example_container [''VIRTUAL_HOST=a.com''] [(''8080/tcp'', [\<lparr>pb_HostIP = [], pb_HostPort = ''80''\<rparr>])])) ''c'' True = Ret (Inr evs) \<and>
     length evs = 1 \<and>
     mux_targets (sv_mux (ProcessEvents empty_OS (evs @ [] @ evs') empty_server)) = mux_targets (sv_mux (ProcessEvents empty_OS [] empty_server))"
proof -
  let ?c = "Inr (example_container [''VIRTUAL_HOST=a.com''] [(''8080/tcp'', [\<lparr>pb_HostIP = [], pb_HostPort = ''80''\<rparr>])])"
  have run: "getContainerEvents ?c ''c'' True = Ret (Inr [\<lparr>ev_ConfigEntry = plain_entry ''a.com'' ''localhost:80'', ev_Up = True\<rparr>])"
    by code_simp
  obtain evs' where "mux_targets (sv_mux (ProcessEvents empty_OS ([\<lparr>ev_ConfigEntry = plain_entry ''a.com'' ''localhost:80'', ev_Up = True\<rparr>] @ [] @ evs') empty_server)) =
      mux_targets (sv_mux (ProcessEvents empty_OS [] empty_server))"
    using container_start_stop [OF wf_empty_server run, of "[]" empty_OS] by (auto simp: keys_def)
  with run show ?thesis by (intro exI conjI) auto
qed

section \<open>Certificates\<close>

text \<open>
  No certificate is ever issued: the host policy of the certificate manager rejects every host, also those the
  router has routes for, because it asks the router's \<open>ContainsHost\<close>.
\<close>
theorem ValidateHost_rejects_all:
  assumes "holds os es s"
  shows "ValidateHost s host = Ret (Some (''unknown hostname: '' @ host))"
  using assms by (simp add: ValidateHost_def ContainsHost_False holds_def)

theorem ValidateHost_rejects_all_witness:
  "\<exists>s. holds empty_OS [plain_entry ''a.com'' ''x''] s \<and> ValidateHost s ''a.com'' = Ret (Some ''unknown hostname: a.com'')"
proof -
  obtain s where s: "holds empty_OS [plain_entry ''a.com'' ''x''] s" using server_with_entry by blast
  with ValidateHost_rejects_all [OF s, of "''a.com''"] show ?thesis by auto
qed

section \<open>Serving requests\<close>

text \<open>Every registered handler was built by the factory for the path and the target it is registered under.\<close>

definition built :: "OS \<Rightarrow> Server \<Rightarrow> bool" where
  "built os s \<longleftrightarrow>
     (\<forall>p. \<forall>x \<in> set (table (sv_mux s) p). \<exists>t h. mh_id x = URL_String t \<and> mh_handler x = Some h \<and>
        HandlerFactory_Handler os (sv_factory s) p t = Inr h)"

lemma built_ProcessEvent:
  assumes "wf_mux (sv_mux s)" "built os s"
  shows "built os (ProcessEvent os e s)"
proof -
  have sub: "set (remove_first P xs) \<subseteq> set xs" for P :: "Handler muxHandler \<Rightarrow> bool" and xs by (rule set_remove_first)
  show ?thesis
    using assms(2) sub
    by (fastforce simp: built_def ProcessEvent_def Println_def Let_def table_Add [OF assms(1)] table_Remove [OF assms(1)]
        split: sum.splits)
qed

lemma built_ProcessEvents:
  assumes "wf_mux (sv_mux s)" "built os s"
  shows "built os (ProcessEvents os es s)"
  using assms
proof (induction es arbitrary: s)
  case Nil
  then show ?case by simp
next
  case (Cons e es)
  have "wf_mux (sv_mux (ProcessEvent os e s))" using ProcessEvents_targets(1) [OF Cons.prems(1), of os "[e]"] by simp
  with built_ProcessEvent [OF Cons.prems, of e] show ?case using Cons.IH by simp
qed

lemma targets_table: "mux_targets m p \<noteq> {#} \<longleftrightarrow> table m p \<noteq> []"
  by (simp add: mux_targets_def)

text \<open>The routes of a server that holds a configuration, and where the handlers in its table come from.\<close>

lemma holds_route_None:
  assumes "holds os es s"
  shows "route (sv_mux s) q = None \<longleftrightarrow> (\<forall>e \<in> set (accepted os (sv_factory s) es). \<not> path_matches (ce_Hostname e) q)"
proof -
  have wf: "wf_mux (sv_mux s)" and tgt: "mux_targets (sv_mux s) = routes (accepted os (sv_factory s) es)"
    using assms by (simp_all add: holds_def)
  have live: "table (sv_mux s) p \<noteq> [] \<longleftrightarrow> (\<exists>e \<in> set (accepted os (sv_factory s) es). ce_Hostname e = p)" for p
    using targets_table [of "sv_mux s" p] by (auto simp: tgt routes_def filter_empty_conv)
  show ?thesis unfolding route_None_iff [OF wf] live by auto
qed

lemma holds_built_entry:
  assumes "holds os es s" "built os s" "x \<in> set (table (sv_mux s) p)"
  obtains e t h where "e \<in> set (accepted os (sv_factory s) es)" "ce_Hostname e = p" "URL_String t = URL_String (ce_Target e)"
    "mh_handler x = Some h" "HandlerFactory_Handler os (sv_factory s) p t = Inr h"
proof -
  obtain t h where t: "mh_id x = URL_String t" "mh_handler x = Some h" "HandlerFactory_Handler os (sv_factory s) p t = Inr h"
    using assms(2,3) unfolding built_def by blast
  have "mh_id x \<in># mux_targets (sv_mux s) p" using assms(3) by (simp add: mux_targets_def)
  then obtain e where "e \<in> set (accepted os (sv_factory s) es)" "ce_Hostname e = p" "URL_String (ce_Target e) = mh_id x"
    using assms(1) by (auto simp: holds_def routes_def)
  with t that show thesis by metis
qed

text \<open>A server that holds a configuration of fewer than \<open>2^32\<close> entries can serve: no entry of the router overflows its
  32-bit counter, and every handler is there.\<close>

lemma holds_serving:
  assumes "holds os es s" "built os s" "length es < 2 ^ 32"
  shows "serving (sv_mux s)"
  unfolding serving_def list_all_length [of _ "m_heap (sv_mux s)"]
proof (intro allI impI)
  fix a
  assume a: "a < length (m_heap (sv_mux s))"
  let ?e = "deref (sv_mux s) a" and ?acc = "accepted os (sv_factory s) es"
  show "length (e_handlers ?e) < 2 ^ 32 \<and> list_all (\<lambda>x. mh_handler x \<noteq> None) (e_handlers ?e)"
  proof (cases "e_handlers ?e = []")
    case False
    with assms(1) a have tbl: "table (sv_mux s) (e_path ?e) = e_handlers ?e"
      by (simp add: holds_def wf_mux_def table_def)
    have "mset (map mh_id (e_handlers ?e)) = routes ?acc (e_path ?e)"
      using assms(1) tbl by (simp add: holds_def mux_targets_def fun_eq_iff flip: tbl)
    then have "length (e_handlers ?e) = length (filter (\<lambda>e. ce_Hostname e = e_path ?e) ?acc)"
      unfolding routes_def by (metis length_map size_mset)
    also have "\<dots> \<le> length es" unfolding accepted_def by (metis (no_types, lifting) length_filter_le order_trans)
    finally have "length (e_handlers ?e) < 2 ^ 32" using assms(3) by simp
    moreover have "mh_handler x \<noteq> None" if "x \<in> set (e_handlers ?e)" for x
      using assms(2) that unfolding built_def tbl [symmetric] by fastforce
    ultimately show ?thesis by (simp add: list_all_iff)
  qed simp
qed

lemma request_dispatch:
  assumes "holds os es s" "built os s" "serving (sv_mux s)"
  shows "if \<exists>e \<in> set (accepted os (sv_factory s) es). path_matches (ce_Hostname e) (r_Host r @ Path (r_URL r))
    then \<exists>e \<in> set (accepted os (sv_factory s) es). \<exists>t h m.
        path_matches (ce_Hostname e) (r_Host r @ Path (r_URL r)) \<and> URL_String t = URL_String (ce_Target e) \<and>
        HandlerFactory_Handler os (sv_factory s) (ce_Hostname e) t = Inr h \<and>
        Server_ServeHTTP be s w r =
          bind_outcome (Handler_ServeHTTP be h (w\<lparr>w_Header := fst (updateHeaders (sv_config s) (w_Header w) r)\<rparr>)
             (snd (updateHeaders (sv_config s) (w_Header w) r)))
           (\<lambda>w'. Ret (w', s\<lparr>sv_mux := m\<rparr>))
    else Server_ServeHTTP be s w r =
        Ret (http_Error w (''Cannot serve path: '' @ r_Host r @ Path (r_URL r)) StatusForbidden, s)"
proof -
  let ?q = "r_Host r @ Path (r_URL r)" and ?acc = "accepted os (sv_factory s) es"
  have wf: "wf_mux (sv_mux s)" using assms(1) by (simp add: holds_def)
  show ?thesis
  proof (cases "route (sv_mux s) ?q")
    case None
    then have "Mux_Handler (sv_mux s) ?q = Ret (None, sv_mux s)" by (rule Handler_no_route [OF wf assms(3)])
    moreover have "\<not> (\<exists>e \<in> set ?acc. path_matches (ce_Hostname e) ?q)"
      using None holds_route_None [OF assms(1)] by blast
    ultimately show ?thesis by (simp add: Server_ServeHTTP_def)
  next
    case (Some p)
    with wf assms(3) obtain x m where x: "x \<in> set (table (sv_mux s) p)" "path_matches p ?q"
      "Mux_Handler (sv_mux s) ?q = Ret (mh_handler x, m)" by (rule Handler_from_table)
    from assms(1,2) x(1) obtain e t h where e: "e \<in> set ?acc" "ce_Hostname e = p" "URL_String t = URL_String (ce_Target e)"
      and h: "mh_handler x = Some h" "HandlerFactory_Handler os (sv_factory s) p t = Inr h" by (rule holds_built_entry)
    have "Server_ServeHTTP be s w r =
          bind_outcome (Handler_ServeHTTP be h (w\<lparr>w_Header := fst (updateHeaders (sv_config s) (w_Header w) r)\<rparr>)
             (snd (updateHeaders (sv_config s) (w_Header w) r)))
           (\<lambda>w'. Ret (w', s\<lparr>sv_mux := m\<rparr>))"
      by (simp add: Server_ServeHTTP_def x(3) h(1) Let_def split: prod.splits)
    with e h(2) x(2) show ?thesis by metis
  qed
qed

text \<open>
  C4. Who answers a request. When no configured hostname matches the requested host and path, the answer is a 403 that
  names them. Otherwise the request, with its headers updated, is answered by a handler that the
  factory built for an entry of the current configuration, and the hostname of that entry matches.
\<close>
theorem requests_are_served_by_configured_targets:
  assumes "holds os es s" "built os s" "serving (sv_mux s)"
  shows "if \<exists>e \<in> set (accepted os (sv_factory s) es). path_matches (ce_Hostname e) (r_Host r @ Path (r_URL r))
    then \<exists>e \<in> set (accepted os (sv_factory s) es). \<exists>t h m.
        path_matches (ce_Hostname e) (r_Host r @ Path (r_URL r)) \<and> URL_String t = URL_String (ce_Target e) \<and>
        HandlerFactory_Handler os (sv_factory s) (ce_Hostname e) t = Inr h \<and>
        Server_ServeHTTP be s w r =
          bind_outcome (Handler_ServeHTTP be h (w\<lparr>w_Header := fst (updateHeaders (sv_config s) (w_Header w) r)\<rparr>)
             (snd (updateHeaders (sv_config s) (w_Header w) r)))
           (\<lambda>w'. Ret (w', s\<lparr>sv_mux := m\<rparr>))
    else Server_ServeHTTP be s w r =
        Ret (http_Error w (''Cannot serve path: '' @ r_Host r @ Path (r_URL r)) StatusForbidden, s)"
  using assms by (rule request_dispatch)

lemma built_empty: "built os empty_server"
  by (simp add: built_def empty_server_def)

text \<open>A server with one entry.\<close>

lemma one_entry_server:
  "holds empty_OS [plain_entry ''a.com'' ''x''] (ProcessEvents empty_OS (toEvents [plain_entry ''a.com'' ''x''] True) empty_server)"
  "built empty_OS (ProcessEvents empty_OS (toEvents [plain_entry ''a.com'' ''x''] True) empty_server)"
proof -
  have "changeEvents [] [plain_entry ''a.com'' ''x''] = toEvents [plain_entry ''a.com'' ''x''] True"
    by (simp add: changeEvents_eq keys_def)
  then show "holds empty_OS [plain_entry ''a.com'' ''x''] (ProcessEvents empty_OS (toEvents [plain_entry ''a.com'' ''x''] True) empty_server)"
    using count_reload [OF holds_empty, of "[plain_entry ''a.com'' ''x'']" empty_OS] by (simp add: keys_def)
  show "built empty_OS (ProcessEvents empty_OS (toEvents [plain_entry ''a.com'' ''x''] True) empty_server)"
    using built_ProcessEvents [OF wf_empty_server built_empty] .
qed

theorem requests_are_served_by_configured_targets_witness:
  "let s = ProcessEvents empty_OS (toEvents [plain_entry ''a.com'' ''x''] True) empty_server;
       r = get_request ''b.com'' ''/x''
   in Server_ServeHTTP idle_backends s Response_zero r =
        Ret (http_Error Response_zero ''Cannot serve path: b.com/x'' StatusForbidden, s)"
proof -
  let ?s = "ProcessEvents empty_OS (toEvents [plain_entry ''a.com'' ''x''] True) empty_server"
  note h = one_entry_server(1) and b = one_entry_server(2)
  have srv: "serving (sv_mux ?s)" by (rule serving_small) code_simp
  have no: "\<not> (\<exists>e \<in> set (accepted empty_OS (sv_factory ?s) [plain_entry ''a.com'' ''x'']).
      path_matches (ce_Hostname e) (r_Host (get_request ''b.com'' ''/x'') @ Path (r_URL (get_request ''b.com'' ''/x''))))"
  proof -
    have "\<not> path_matches ''a.com'' ''b.com/x''" by code_simp
    then show ?thesis by (auto simp: accepted_def plain_entry_def get_request_def URL_zero_def)
  qed
  from requests_are_served_by_configured_targets [OF h b srv, of "get_request ''b.com'' ''/x''" idle_backends Response_zero]
  show ?thesis unfolding if_not_P [OF no] by (simp add: Let_def get_request_def URL_zero_def)
qed

section \<open>Headers\<close>

lemma fold_Header_Del:
  "Header_Get (fold (\<lambda>h acc. Header_Del acc h) ds acc) k =
     (if CanonicalHeaderKey k \<in> CanonicalHeaderKey ` set ds then [] else Header_Get acc k)"
  by (induction ds arbitrary: acc) auto

lemma Header_Get_Add [simp]:
  "Header_Get (Header_Add acc k v) k' =
     (if CanonicalHeaderKey k = CanonicalHeaderKey k' \<and> acc (CanonicalHeaderKey k) = [] then v else Header_Get acc k')"
  by (auto simp: Header_Get_def Header_Add_def split: list.splits)

lemma fold_Header_Add_other:
  "CanonicalHeaderKey k \<notin> (CanonicalHeaderKey \<circ> fst) ` set es \<Longrightarrow>
   Header_Get (fold (\<lambda>(h, v) acc. Header_Add acc h v) es acc) k = Header_Get acc k"
  by (induction es arbitrary: acc) auto

lemma updated_header:
  assumes "CanonicalHeaderKey k \<notin> (CanonicalHeaderKey \<circ> fst) ` set (sc_ExtraHeaders cfg)"
  shows "Header_Get (r_Header (snd (updateHeaders cfg wh r))) k =
     (if CanonicalHeaderKey k \<in> CanonicalHeaderKey ` set (sc_DiscardHeaders cfg) then []
      else if CanonicalHeaderKey k = ''X-Razvhost-Remoteaddr'' then r_RemoteAddr r
      else if CanonicalHeaderKey k = ''X-Forwarded-Host'' then r_Host r
      else Header_Get (r_Header r) k)"
proof -
  have c: "CanonicalHeaderKey ''X-Forwarded-Host'' = ''X-Forwarded-Host''"
    "CanonicalHeaderKey ''x-razvhost-remoteaddr'' = ''X-Razvhost-Remoteaddr''" by code_simp+
  show ?thesis
    by (auto simp: updateHeaders_def updateRequestHeader_def fold_Header_Add_other [OF assms] fold_Header_Del c)
qed

text \<open>
  C27. The headers a handler sees. A header that is discarded and not an extra header is absent from the request; the
  forwarding headers carry the requested host and the client's address whatever the client sent, unless
  they are discarded or extra headers; every other header is the client's.
\<close>
theorem updateHeaders_request:
  assumes "CanonicalHeaderKey k \<notin> (CanonicalHeaderKey \<circ> fst) ` set (sc_ExtraHeaders cfg)"
  shows "Header_Get (r_Header (snd (updateHeaders cfg wh r))) k =
     (if CanonicalHeaderKey k \<in> CanonicalHeaderKey ` set (sc_DiscardHeaders cfg) then []
      else if CanonicalHeaderKey k = ''X-Razvhost-Remoteaddr'' then r_RemoteAddr r
      else if CanonicalHeaderKey k = ''X-Forwarded-Host'' then r_Host r
      else Header_Get (r_Header r) k)"
  using assms by (rule updated_header)

theorem updateHeaders_request_witness:
  "let cfg = (sv_config empty_server)\<lparr>sc_DiscardHeaders := [''x-forwarded-for''], sc_ExtraHeaders := [(''server'', ''razvhost'')]\<rparr>;
       r = (get_request ''a.com'' ''/'')\<lparr>r_Header := Header_Set (Header_Set no_headers ''X-Forwarded-For'' ''1.2.3.4'') ''X-Forwarded-Host'' ''evil''\<rparr>;
       h = r_Header (snd (updateHeaders cfg no_headers r))
   in Header_Get h ''X-Forwarded-For'' = [] \<and> Header_Get h ''X-Forwarded-Host'' = ''a.com''"
proof -
  let ?cfg = "(sv_config empty_server)\<lparr>sc_DiscardHeaders := [''x-forwarded-for''], sc_ExtraHeaders := [(''server'', ''razvhost'')]\<rparr>"
  have c: "CanonicalHeaderKey ''X-Forwarded-For'' = ''X-Forwarded-For''" "CanonicalHeaderKey ''x-forwarded-for'' = ''X-Forwarded-For''"
    "CanonicalHeaderKey ''X-Forwarded-Host'' = ''X-Forwarded-Host''" "CanonicalHeaderKey ''server'' = ''Server''" by code_simp+
  show ?thesis
    using updateHeaders_request [of "''X-Forwarded-For''" ?cfg] updateHeaders_request [of "''X-Forwarded-Host''" ?cfg]
    by (simp add: c Let_def get_request_def)
qed

section \<open>The debug interface\<close>

text \<open>A handler's answer, replied to a fresh writer, is what the handler does to that writer. Serving a file sends a status
  before the body, as \<open>http.ServeFile\<close> does in every case.\<close>

definition sends_status :: "Answer \<Rightarrow> bool" where
  "sends_status a \<longleftrightarrow> an_Status a \<noteq> None \<or> an_Body a = []"

lemma Response_eqI: "w_Header w = w_Header w' \<Longrightarrow> w_Sent w = w_Sent w' \<Longrightarrow> w_Body w = w_Body w' \<Longrightarrow> w = (w' :: Response)"
  by simp

lemma reply_response_answer:
  assumes "w_Sent w = None" "w_Body w = []" "case w_Sent out of None \<Rightarrow> w_Body out = [] | Some (code, h) \<Rightarrow> w_Header out = h"
  shows "reply w (response_answer out) = out"
  using assms by (cases "w_Sent out") (auto simp: reply_def response_answer_def WriteHeader_def Write_def intro!: Response_eqI)

lemma Handler_ServeHTTP_answer:
  assumes "be_tokenize be [] = []" "w_Sent w = None" "w_Body w = []"
  shows "Handler_ServeHTTP be h w r = bind_outcome (Handler_answer be h (w_Header w) r) (\<lambda>a. Ret (reply w a))"
proof (cases h)
  case (PathCombinations b hostname hostPath targetPath)
  have same: "Response_zero\<lparr>w_Header := w_Header w\<rparr> = w" using assms(2,3) by (simp add: Response_zero_def)
  show ?thesis
  proof (cases "handlePathCombinations be b hostname hostPath targetPath w r")
    case (Ret out)
    then obtain a :: Answer where "out = pathPrefix_respond (be_detect be) (be_tokenize be)
        (NewPathPrefixHTMLResponseWriter hostname hostPath targetPath (w\<lparr>w_Header := an_Header a\<rparr>)) (an_Status a) (an_Body a)"
      unfolding handlePathCombinations_def bind_outcome_eq_Ret outcome.inject by metis
    from respond_sent [OF _ assms(1) this] have "case w_Sent out of None \<Rightarrow> w_Body out = [] | Some (code, h) \<Rightarrow> w_Header out = h"
      using assms(2,3) by (cases "w_Sent out") simp_all
    with Ret PathCombinations assms same show ?thesis by (simp add: Handler_ServeHTTP_def Handler_answer_def reply_response_answer)
  qed (simp add: PathCombinations Handler_ServeHTTP_def Handler_answer_def same)
qed (simp_all add: Handler_ServeHTTP_def Handler_answer_def)

lemma Handler_answer_sends_status:
  assumes "\<And>f r h. sends_status (be_ServeFile be f r h)" "Handler_answer be handler h r = Ret a"
  shows "sends_status a"
proof (cases handler)
  case (PathCombinations b hostname hostPath targetPath)
  with assms(2) show ?thesis
    by (auto simp: Handler_answer_def response_answer_def sends_status_def split: option.splits)
next
  case (GoWasm hostPath f)
  with assms show ?thesis
    by (auto simp: Handler_answer_def GoWasm_serve_def assets_Open_def Let_def http_Redirect_def error_answer_def sends_status_def split: if_splits)
next
  case (Tail f whence)
  with assms(2) show ?thesis by (auto simp: Handler_answer_def Tail_serve_def sends_status_def split: sum.splits)
qed

text \<open>The two ways of serving a request agree: what the server does to a fresh writer is to reply its answer.\<close>

lemma Server_ServeHTTP_answer:
  assumes "be_tokenize be [] = []" "w_Sent w = None" "w_Body w = []"
  shows "Server_ServeHTTP be s w r = bind_outcome (Server_answer be s (w_Header w) r) (\<lambda>(a, s'). Ret (reply w a, s'))"
proof -
  have reply: "reply (w\<lparr>w_Header := h\<rparr>) a = reply w a" for h a by (simp add: reply_def)
  have error: "reply w (error_answer (w_Header w) msg code) = http_Error w msg code" for msg code
    by (simp add: reply_def error_answer_def http_Error_def Let_def)
  show ?thesis
  proof (cases "Mux_Handler (sv_mux s) (r_Host r @ Path (r_URL r))")
    case (Ret x)
    obtain handler m where x: "x = (handler, m)" by fastforce
    obtain wh r' where u: "updateHeaders (sv_config s) (w_Header w) r = (wh, r')" by fastforce
    have "Handler_ServeHTTP be h (w\<lparr>w_Header := wh\<rparr>) r' = bind_outcome (Handler_answer be h wh r') (\<lambda>a. Ret (reply w a))" for h
      using Handler_ServeHTTP_answer [of be "w\<lparr>w_Header := wh\<rparr>" h r'] assms by (simp add: reply)
    then show ?thesis
      using Ret x u error by (cases handler) (simp_all add: Server_ServeHTTP_def Server_answer_def Let_def bind_outcome_assoc)
  qed (simp add: Server_ServeHTTP_def Server_answer_def)
qed

lemma Server_answer_sends_status:
  assumes "\<And>f r h. sends_status (be_ServeFile be f r h)" "Server_answer be s h r = Ret (a, s')"
  shows "sends_status a"
proof -
  have error: "sends_status (error_answer h msg code)" for msg code by (simp add: sends_status_def error_answer_def)
  obtain wh r' where "updateHeaders (sv_config s) h r = (wh, r')" by fastforce
  with assms(2) error consider msg code where "a = error_answer h msg code" | handler where "Handler_answer be handler wh r' = Ret a"
    by (auto simp: Server_answer_def Let_def split: option.splits)
  then show ?thesis using error Handler_answer_sends_status [OF assms(1)] by cases blast+
qed

text \<open>A response as it is seen below another path: the status is kept, the location and, in HTML, the links are rewritten, and
  everything else is left alone.\<close>

definition relocated :: "(string \<Rightarrow> Token list) \<Rightarrow> string \<Rightarrow> string \<Rightarrow> Response \<Rightarrow> Response" where
  "relocated tokenize hostname hostPath out =
     (case w_Sent out of
        None \<Rightarrow> out
      | Some (code, h) \<Rightarrow>
          \<lparr>w_Header = rewritten_header hostname hostPath [] h, w_Sent = Some (code, rewritten_header hostname hostPath [] h),
           w_Body = (if HasPrefix (Header_Get h ''Content-Type'') ''text/html''
             then renderTokens (modifyToken hostname hostPath []) 0 (tokenize (w_Body out)) else w_Body out)\<rparr>)"

lemma reply_sent:
  assumes "w_Sent w = None" "w_Body w = []" "an_Status a = Some code"
  shows "reply w a = \<lparr>w_Header = an_Header a, w_Sent = Some (code, an_Header a), w_Body = concat (an_Body a)\<rparr>"
proof -
  have "fold (\<lambda>p w. Write w p) ps v = v\<lparr>w_Body := w_Body v @ concat ps\<rparr>" if "w_Sent v \<noteq> None" for ps v
    using that by (induction ps arbitrary: v) (simp_all add: Write_sent)
  then show ?thesis using assms by (simp add: reply_def WriteHeader_def)
qed

lemma wrapped_answer:
  assumes "be_tokenize be [] = []" "w_Sent w = None" "w_Body w = []" "sends_status a"
  shows "pathPrefix_respond (be_detect be) (be_tokenize be) (NewPathPrefixHTMLResponseWriter hn hp [] (w\<lparr>w_Header := an_Header a\<rparr>))
      (an_Status a) (an_Body a) = relocated (be_tokenize be) hn hp (reply w a)"
proof (cases "an_Status a")
  case None
  with assms have "an_Body a = []" by (simp add: sends_status_def)
  with None assms show ?thesis
    by (simp add: relocated_def reply_def pathPrefix_respond_def pathPrefix_Close_def NewPathPrefixHTMLResponseWriter_def)
next
  case (Some code)
  with assms show ?thesis by (simp add: respond_explicit relocated_def reply_sent)
qed

lemma Debug_path:
  assumes "CHR ''/'' \<notin> set host" "p = [] \<or> HasPrefix p ''/''"
  obtains rest where "SplitN (CHR ''/'' # host @ p) ''/'' 3 = [] # host # rest"
proof -
  have host: "takeWhile (\<lambda>c. c \<noteq> CHR ''/'') host = host"
    using assms(1) by (subst takeWhile_eq_all_conv) auto
  have idx: "Index (host @ p) ''/'' = (if p = [] then None else Some (length host))"
  proof (cases p)
    case Nil
    with assms(1) show ?thesis by (simp add: Index_single)
  next
    case (Cons c p')
    with assms(2) have "p = CHR ''/'' # p'" by simp
    then show ?thesis using host by (simp add: Index_single takeWhile_tail)
  qed
  show ?thesis
  proof (cases "p = []")
    case True
    with idx show ?thesis using that [of "[]"] by (simp add: numeral_3_eq_3)
  next
    case False
    with idx show ?thesis using that [of "[drop 1 p]"] by (simp add: numeral_3_eq_3)
  qed
qed



end
