(* ===== verification/Watching.thy ===== *)
theory Watching
  imports Server
begin

text \<open>
  A server that listens to a watched configuration file: the composition of the watcher of \<open>config.go\<close> with the event
  processing of \<open>server.go\<close>. As long as the reader keeps up, so that no two batches wait to be sent at the same
  time, batches arrive in the order in which they were committed, and the router follows the file.
\<close>

section \<open>Runs in which the reader keeps up\<close>

text \<open>\<open>calm_run tpl c ls hist c'\<close>: a run from \<open>c\<close> to \<open>c'\<close> with the labels \<open>ls\<close> in which every step starts with at most
  one waiting batch; \<open>hist\<close> are the configurations committed on the way.\<close>

inductive calm_run ::
  "(string \<Rightarrow> string + string) \<Rightarrow> Config \<Rightarrow> cfg_label list \<Rightarrow> ConfigEntry list list \<Rightarrow> Config \<Rightarrow> bool"
  for tpl :: "string \<Rightarrow> string + string" and c :: Config where
  calm_nil: "calm_run tpl c [] [] c"
| calm_snoc: "calm_run tpl c ls hist c' \<Longrightarrow> length (cfg_senders c') \<le> 1 \<Longrightarrow> config_step tpl c' l c'' \<Longrightarrow>
    calm_run tpl c (ls @ [l]) (hist @ (if committed [l] = [] then [] else [cfg_prevEntries c''])) c''"

lemma calm_run_trace: "calm_run tpl c ls hist c' \<Longrightarrow> config_trace tpl c ls c'"
  by (induction rule: calm_run.induct) (auto intro: config_trace.intros)

text \<open>One step of a calm run keeps the order of the batches.\<close>

lemma config_step_in_order:
  assumes "config_step tpl c l c'" "length (cfg_senders c) \<le> 1"
  shows "delivered [l] @ cfg_events c' @ cfg_senders c' = cfg_events c @ cfg_senders c @ committed [l]"
  using assms(1)
proof (cases rule: config_step.cases)
  case (send j)
  with assms(2) have "cfg_senders c = [cfg_senders c ! 0]" "j = 0"
    by (cases "cfg_senders c"; simp)+
  with send assms(2) show ?thesis by (auto simp: Config_send_def delete_nth_def split: if_splits)
qed (auto simp: config_ops split: if_splits prod.splits option.splits)

lemma calm_run_in_order:
  assumes "calm_run tpl c ls hist c'"
  shows "delivered ls @ cfg_events c' @ cfg_senders c' = cfg_events c @ cfg_senders c @ committed ls"
  using assms
proof induction
  case (calm_snoc ls hist c' l c'')
  have "delivered ls @ delivered [l] @ cfg_events c'' @ cfg_senders c'' = (delivered ls @ cfg_events c' @ cfg_senders c') @ committed [l]"
    using config_step_in_order [OF calm_snoc.hyps(3,2)] by simp
  then show ?case by (simp add: calm_snoc.IH)
qed simp

text \<open>The committed batches are the changes between the committed configurations.\<close>

lemma changes_snoc: "changes prev (hist @ [new]) = changes prev hist @ [changeEvents (last (prev # hist)) new]"
  by (induction hist arbitrary: prev) auto

lemma config_step_commits:
  assumes "config_step tpl c l c'"
  shows "if committed [l] = [] then cfg_prevEntries c' = cfg_prevEntries c
    else committed [l] = [changeEvents (cfg_prevEntries c) (cfg_prevEntries c')]"
  using assms
  by (cases rule: config_step.cases) (auto simp: config_ops split: if_splits prod.splits option.splits)

lemma calm_run_history:
  assumes "calm_run tpl c ls hist c'"
  shows "committed ls = changes (cfg_prevEntries c) hist \<and> cfg_prevEntries c' = last (cfg_prevEntries c # hist)"
  using assms
proof induction
  case (calm_snoc ls hist c' l c'')
  show ?case
    using calm_snoc.IH config_step_commits [OF calm_snoc.hyps(3)]
    by (cases "committed [l] = []") (simp_all add: changes_snoc)
qed simp

lemma toEvents_change: "toEvents es True = changeEvents [] es"
  by (simp add: changeEvents_eq keys_def)

lemma delivered_changes:
  assumes "NewConfig tpl content None = Inr c0" "calm_run tpl c0 ls hist c" "cfg_events c = []" "cfg_senders c = []"
  shows "delivered ls = changes [] (cfg_prevEntries c0 # hist)"
proof -
  have "cfg_events c0 = [toEvents (cfg_prevEntries c0) True]" "cfg_senders c0 = []"
    using NewConfig_Inr [OF assms(1)] by simp_all
  then show ?thesis
    using calm_run_in_order [OF assms(2)] calm_run_history [OF assms(2)] assms(3,4) by (simp add: toEvents_change)
qed

lemma listening_follows:
  assumes "NewConfig tpl content None = Inr c0" "calm_run tpl c0 ls hist c"
    and "cfg_events c = []" "cfg_senders c = []"
    and "holds os [] s" "regular os (sv_factory s) ([] # cfg_prevEntries c0 # hist)"
  shows "holds os (cfg_prevEntries c) (Listen os (delivered ls) s)"
  using Listen_history [OF assms(5,6)] delivered_changes [OF assms(1-4)] calm_run_history [OF assms(2)] by simp

text \<open>
  C2. The router follows the file. A server that started with an empty router and listens to a watched
  configuration holds the accepted entries of the configuration that was read last, whenever nothing is on its
  way to it any more: for every interleaving of file events, reload tasks, senders and deliveries in which the reader
  keeps up, if no configuration repeats a pair.
\<close>

theorem router_follows_watched_file:
  assumes "NewConfig tpl content None = Inr c0" "calm_run tpl c0 ls hist c"
    and "cfg_events c = []" "cfg_senders c = []"
    and "holds os [] s" "regular os (sv_factory s) ([] # cfg_prevEntries c0 # hist)"
  shows "holds os (cfg_prevEntries c) (Listen os (delivered ls) s)"
  using assms by (rule listening_follows)

text \<open>Schedules whose runs are calm.\<close>

fun run_calm ::
  "(string \<Rightarrow> string + string) \<Rightarrow> action list \<Rightarrow> cfg_label list \<Rightarrow> ConfigEntry list list \<Rightarrow> Config \<Rightarrow>
   (cfg_label list \<times> ConfigEntry list list \<times> Config) option" where
  "run_calm tpl [] ls hist c = Some (ls, hist, c)"
| "run_calm tpl (a # as) ls hist c =
     (if length (cfg_senders c) \<le> 1 then
        (case do_action tpl a c of
           None \<Rightarrow> None
         | Some (l, c') \<Rightarrow> run_calm tpl as (ls @ [l]) (hist @ (if committed [l] = [] then [] else [cfg_prevEntries c'])) c')
      else None)"

lemma run_calm_sound:
  "run_calm tpl as ls hist c1 = Some (ls', hist', c2) \<Longrightarrow> calm_run tpl c0 ls hist c1 \<Longrightarrow> calm_run tpl c0 ls' hist' c2"
proof (induction as arbitrary: ls hist c1)
  case Nil
  then show ?case by simp
next
  case (Cons a as)
  then obtain l c where "length (cfg_senders c1) \<le> 1" "do_action tpl a c1 = Some (l, c)"
    "run_calm tpl as (ls @ [l]) (hist @ (if committed [l] = [] then [] else [cfg_prevEntries c])) c = Some (ls', hist', c2)"
    by (auto split: option.splits if_splits)
  with Cons show ?case by (blast intro: calm_snoc do_action_sound)
qed

definition reload_schedule :: "action list" where
  "reload_schedule =
     [DoDeliver, DoTouch False, DoNotify True, DoStart 0, DoWake 0, DoRead 0 (Inr ''b.com -> http://y''), DoCommit 0, DoSend 0, DoDeliver]"

lemma reload_run:
  obtains c0 ls c where "NewConfig Inr (Inr ''a.com -> http://x'') None = Inr c0"
    "calm_run Inr c0 ls [[plain_entry ''b.com'' ''y'']] c" "cfg_events c = []" "cfg_senders c = []"
    "cfg_prevEntries c = [plain_entry ''b.com'' ''y'']"
    "regular empty_OS hf ([] # cfg_prevEntries c0 # [[plain_entry ''b.com'' ''y'']])"
    "cfg_prevEntries c0 = [plain_entry ''a.com'' ''x'']"
proof -
  define c0 where "c0 = \<lparr>cfg_prevEntries = [plain_entry ''a.com'' ''x''], cfg_modCounter = 0, cfg_tasks = [], cfg_senders = [],
    cfg_events = [toEvents [plain_entry ''a.com'' ''x''] True], cfg_closed = False, cfg_watched = True, cfg_fsevents = 0\<rparr>"
  have c0: "NewConfig Inr (Inr ''a.com -> http://x'') None = Inr c0" unfolding c0_def by code_simp
  have "map_option (\<lambda>(ls, hist, c). (hist, cfg_prevEntries c, cfg_events c, cfg_senders c)) (run_calm Inr reload_schedule [] [] c0) =
      Some ([[plain_entry ''b.com'' ''y'']], [plain_entry ''b.com'' ''y''], [], [])"
    unfolding c0_def by code_simp
  then obtain ls c where run: "run_calm Inr reload_schedule [] [] c0 = Some (ls, [[plain_entry ''b.com'' ''y'']], c)"
    and c: "cfg_prevEntries c = [plain_entry ''b.com'' ''y'']" "cfg_events c = []" "cfg_senders c = []"
    by (auto simp del: run_calm.simps)
  have "regular empty_OS hf ([] # cfg_prevEntries c0 # [[plain_entry ''b.com'' ''y'']])"
    by (auto simp: regular_def accepts_plain c0_def)
  moreover have "cfg_prevEntries c0 = [plain_entry ''a.com'' ''x'']" by (simp add: c0_def)
  ultimately show thesis using that [OF c0 run_calm_sound [OF run calm_nil] c(2,3,1)] by blast
qed

theorem router_follows_watched_file_witness:
  "\<exists>c0 ls hist c. NewConfig Inr (Inr ''a.com -> http://x'') None = Inr c0 \<and> calm_run Inr c0 ls hist c \<and>
     cfg_prevEntries c = [plain_entry ''b.com'' ''y''] \<and>
     holds empty_OS (cfg_prevEntries c) (Listen empty_OS (delivered ls) empty_server)"
proof -
  obtain c0 ls c where r: "NewConfig Inr (Inr ''a.com -> http://x'') None = Inr c0"
    "calm_run Inr c0 ls [[plain_entry ''b.com'' ''y'']] c" "cfg_events c = []" "cfg_senders c = []"
    "cfg_prevEntries c = [plain_entry ''b.com'' ''y'']"
    "regular empty_OS (sv_factory empty_server) ([] # cfg_prevEntries c0 # [[plain_entry ''b.com'' ''y'']])" by (rule reload_run) blast
  from router_follows_watched_file [OF r(1-4) holds_empty r(6)] r show ?thesis by blast
qed

end
