(* ===== verification/ConfigWatch.thy ===== *)
theory ConfigWatch
  imports Config
begin

text \<open>
  When the watcher of \<open>src/pkg/config/config.go\<close> no longer notices changes of the file.
\<close>

section \<open>The watch\<close>

text \<open>Nothing is left that could cause a reload: the watch is gone, no file event is queued and no task is under way.\<close>

definition deaf :: "Config \<Rightarrow> bool" where
  "deaf c \<longleftrightarrow> \<not> cfg_watched c \<and> cfg_fsevents c = 0 \<and> cfg_tasks c = []"

lemma deaf_step:
  assumes "config_step tpl c l c'" "deaf c"
  shows "deaf c' \<and> committed [l] = [] \<and> cfg_prevEntries c' = cfg_prevEntries c"
  using assms
  by (cases rule: config_step.cases) (auto simp: deaf_def Config_send_def Config_Close_def split: if_splits)

lemma deaf_trace:
  assumes "config_trace tpl c ls c'" "deaf c"
  shows "deaf c' \<and> committed ls = [] \<and> cfg_prevEntries c' = cfg_prevEntries c"
  using assms
proof induction
  case (trace_snoc ls c' l c'')
  then show ?case using deaf_step [OF trace_snoc.hyps(2)] by simp
qed simp

text \<open>
  C39. A file that is replaced can fall out of sight. The loop ignores the error of adding the watch again: when the file is removed
  and not yet there again at that moment, as with editors that write a new file and rename it, and cannot be read
  a second later either, the server keeps the old configuration for ever, whatever the file holds afterwards.
\<close>

theorem lost_watch_freezes_configuration:
  assumes "NewConfig tpl content None = Inr c0"
  shows "\<exists>ls c. config_trace tpl c0 ls c \<and> \<not> cfg_closed c \<and>
    (\<forall>ls' c'. config_trace tpl c ls' c' \<longrightarrow> committed ls' = [] \<and> cfg_prevEntries c' = cfg_prevEntries c0)"
proof -
  note init = NewConfig_Inr [OF assms]
  let ?r = "run_schedule tpl [DoTouch True, DoNotify False, DoStart 0, DoWake 0, DoRead 0 (Inl ''no such file'')] [] c0"
  obtain ls c where run: "?r = Some (ls, c)" and c: "deaf c" "\<not> cfg_closed c" "cfg_prevEntries c = cfg_prevEntries c0"
    using init by (simp add: config_ops ReadConfigFile_def deaf_def delete_nth_def)
  have "config_trace tpl c0 ls c" by (rule run_schedule_sound [OF run trace_nil])
  with c show ?thesis using deaf_trace by metis
qed

theorem lost_watch_freezes_configuration_witness:
  "\<exists>c0 ls c. NewConfig Inr (Inr []) None = Inr c0 \<and> config_trace Inr c0 ls c \<and>
     (\<forall>ls' c'. config_trace Inr c ls' c' \<longrightarrow> committed ls' = [])"
proof -
  have "NewConfig Inr (Inr []) None = Inr \<lparr>cfg_prevEntries = [], cfg_modCounter = 0, cfg_tasks = [], cfg_senders = [], cfg_events = [[]],
    cfg_closed = False, cfg_watched = True, cfg_fsevents = 0\<rparr>" by code_simp
  from this lost_watch_freezes_configuration [OF this] show ?thesis by blast
qed

end
