(* ===== verification/Containers.thy ===== *)
theory Containers
  imports Watching
begin

text \<open>
  The composition of the two sources of routes: the watched file and the Docker containers. The daemon is given by the
  containers it lists when the program starts and by the stream of its events, each with the inspection that the watcher makes for
  it. Nothing is assumed of the inspections: a container may be described differently when it stops, or not at all.
\<close>

section \<open>Containers and their entries\<close>

text \<open>The entries that a container names when it is inspected.\<close>

definition container_entries :: "string + Container \<Rightarrow> string \<Rightarrow> ConfigEntry list" where
  "container_entries inspect ident =
     (case getContainerEvents inspect ident True of
        Ret (Inr evs) \<Rightarrow> map ev_ConfigEntry evs
      | _ \<Rightarrow> [])"

definition listed_entries :: "(string \<times> (string + Container)) list \<Rightarrow> ConfigEntry list" where
  "listed_entries conts = concat (map (\<lambda>(ident, inspect). container_entries inspect ident) conts)"

text \<open>Entries taken back, one for each entry with the same pair.\<close>

definition take_back :: "ConfigEntry list \<Rightarrow> ConfigEntry list \<Rightarrow> ConfigEntry list" where
  "take_back ds es = fold (\<lambda>d. remove_first (\<lambda>e. key e = key d)) ds es"

text \<open>The entries that are registered after a stream of API events: starting a container registers the entries of the inspection made then,
  and stopping one takes back the entries of the inspection made at the stop, as far as they are registered. A container that dies without being
  stopped, or that is inspected without its bindings when it stops, keeps its entries.\<close>

definition register :: "APIEvents \<times> (string + Container) \<Rightarrow> ConfigEntry list \<Rightarrow> ConfigEntry list" where
  "register x es =
     (case x of (e, inspect) \<Rightarrow>
        if ae_Type e = ''container'' \<and> ae_Action e = ''start'' then es @ container_entries inspect (ae_ActorID e)
        else if ae_Type e = ''container'' \<and> ae_Action e = ''stop'' then take_back (container_entries inspect (ae_ActorID e)) es
        else es)"

abbreviation registered :: "ConfigEntry list \<Rightarrow> (APIEvents \<times> (string + Container)) list \<Rightarrow> ConfigEntry list" where
  "registered es input \<equiv> fold register input es"

text \<open>All inspections that the watcher has made.\<close>

definition inspections ::
  "(string \<times> (string + Container)) list \<Rightarrow> (APIEvents \<times> (string + Container)) list \<Rightarrow> (string \<times> (string + Container)) list" where
  "inspections conts input = conts @ map (\<lambda>(e, inspect). (ae_ActorID e, inspect)) input"

text \<open>The events of a container, whether it starts or stops, are those of its entries.\<close>

lemma getContainerEvents_container_entries:
  assumes "getContainerEvents inspect i b = Ret r"
  shows "(case r of Inl err \<Rightarrow> [] | Inr evs \<Rightarrow> evs) = toEvents (container_entries inspect i) b"
proof (cases b)
  case True
  then show ?thesis
    using assms getContainerEvents_entries [of inspect i True]
    by (fastforce simp: container_entries_def toEvents_def split: sum.splits)
next
  case False
  then obtain r' where r': "getContainerEvents inspect i True = Ret r'" "r = map_sum id (map (\<lambda>e. e\<lparr>ev_Up := False\<rparr>)) r'"
    using assms by (auto simp: getContainerEvents_mirror)
  with False show ?thesis
    using getContainerEvents_entries [of inspect i True]
    by (fastforce simp: container_entries_def toEvents_def split: sum.splits)
qed

abbreviation http_entries :: "ConfigEntry list \<Rightarrow> bool" where
  "http_entries es \<equiv> \<forall>e \<in> set es. Scheme (ce_Target e) = ''http''"

lemma container_entries_http: "http_entries (container_entries inspect i)"
proof -
  have "http_entries (map ev_ConfigEntry evs)" if r: "getContainerEvents inspect i True = Ret (Inr evs)" for evs
  proof -
    obtain es where es: "evs = toEvents es True" "http_entries es" using r by (rule getContainerEvents_entries)
    then show ?thesis by (simp add: toEvents_def)
  qed
  note http = this
  show ?thesis
  proof (cases "getContainerEvents inspect i True")
    case (Ret r)
    then show ?thesis using http by (cases r) (simp_all add: container_entries_def)
  qed (simp add: container_entries_def)
qed

lemma listed_entries_http: "http_entries (listed_entries conts)"
  using container_entries_http by (auto simp: listed_entries_def)

lemma take_back_subset: "set (take_back ds es) \<subseteq> set es"
  using set_remove_first by (induction ds arbitrary: es) (fastforce simp: take_back_def)+

lemma occs_take_back: "occs (take_back ds es) k = occs es k - occs ds k"
proof (induction ds arbitrary: es)
  case (Cons d ds)
  have "occs (remove_first (\<lambda>e. key e = key d) es) k = occs es k - (if key d = k then 1 else 0)"
    by (simp add: occs_def mset_map_remove_first)
  with Cons show ?case by (simp add: take_back_def)
qed (simp add: take_back_def)

lemma register_subset: "set (register (e, inspect) es) \<subseteq> set es \<union> set (container_entries inspect (ae_ActorID e))"
  using take_back_subset [of _ es] by (auto simp: register_def)

lemma registered_http: "http_entries es \<Longrightarrow> http_entries (registered es input)"
proof (induction input arbitrary: es)
  case (Cons x input)
  obtain e inspect where x: "x = (e, inspect)" by fastforce
  have "http_entries (register x es)"
    using Cons.prems register_subset [of e inspect es] container_entries_http [of inspect "ae_ActorID e"] unfolding x by blast
  from Cons.IH [OF this] show ?case by simp
qed simp

section \<open>The routes of the registered entries\<close>

lemma routes_start:
  assumes "http_entries ds"
  shows "fold targets_op (event_ops os hf (toEvents ds True)) (routes es) = routes (es @ ds)"
  by (intro ext multiset_eqI)
    (simp add: count_ups [OF event_ops_up(1)] event_ops_up(2) count_routes accepted_http [OF assms])

lemma routes_stop: "fold targets_op (event_ops os hf (toEvents ds False)) (routes es) = routes (take_back ds es)"
  by (intro ext multiset_eqI)
    (simp add: count_downs [OF event_ops_down(1)] event_ops_down(2) count_routes occs_take_back)

lemma single_batches: "concat (map (\<lambda>ev. [ev]) evs @ out) = evs @ concat out"
  by (induction evs) simp_all

lemma convertEvents_Cons:
  assumes "convertEvents ((e, inspect) # input) = Ret batches"
  obtains (skip) "convertEvents input = Ret batches" "\<not> (ae_Type e = ''container'' \<and> ae_Action e \<in> {''start'', ''stop''})"
  | (events) b out where "convertEvents input = Ret out" "ae_Type e = ''container''" "ae_Action e = (if b then ''start'' else ''stop'')"
      "concat batches = toEvents (container_entries inspect (ae_ActorID e)) b @ concat out"
proof (cases "ae_Type e = ''container'' \<and> ae_Action e \<in> {''start'', ''stop''}")
  case False
  then show ?thesis using assms skip by (auto split: if_splits)
next
  case True
  let ?b = "ae_Action e = ''start''"
  from True assms obtain r out where r: "getContainerEvents inspect (ae_ActorID e) ?b = Ret r" and out: "convertEvents input = Ret out"
    and b: "batches = map (\<lambda>ev. [ev]) (case r of Inl err \<Rightarrow> [] | Inr events \<Rightarrow> events) @ out"
    by (auto split: if_splits)
  have "concat batches = toEvents (container_entries inspect (ae_ActorID e)) ?b @ concat out"
    unfolding b single_batches getContainerEvents_container_entries [OF r] ..
  with True out show ?thesis by (intro events [of out ?b]) auto
qed

lemma routes_of_registered:
  assumes "convertEvents input = Ret batches"
  shows "fold targets_op (event_ops os hf (concat batches)) (routes es) = routes (registered es input)"
  using assms
proof (induction input arbitrary: es batches)
  case (Cons x input)
  obtain e inspect where x: "x = (e, inspect)" by fastforce
  let ?ds = "container_entries inspect (ae_ActorID e)"
  from Cons.prems [unfolded x] show ?case
  proof (cases rule: convertEvents_Cons)
    case skip
    then show ?thesis using Cons.IH by (auto simp: x register_def)
  next
    case (events b out)
    then show ?thesis
      using Cons.IH [OF events(1)] routes_start [OF container_entries_http [of inspect "ae_ActorID e"], of os hf es] routes_stop [of os hf ?ds es]
      by (cases b) (simp_all add: x register_def)
  qed
qed simp

lemma convertEvents_keys:
  "convertEvents input = Ret batches \<Longrightarrow> k \<in> keys (map ev_ConfigEntry (concat batches)) \<Longrightarrow>
   \<exists>(i, inspect) \<in> set (inspections [] input). k \<in> keys (container_entries inspect i)"
proof (induction input arbitrary: batches)
  case (Cons x input)
  obtain e inspect where x: "x = (e, inspect)" by fastforce
  from Cons.prems(1) [unfolded x] show ?case
  proof (cases rule: convertEvents_Cons)
    case skip
    then show ?thesis using Cons by (auto simp: x inspections_def)
  next
    case (events b out)
    have "keys (map ev_ConfigEntry (concat batches)) =
        keys (container_entries inspect (ae_ActorID e)) \<union> keys (map ev_ConfigEntry (concat out))"
      unfolding events(4) by (simp add: keys_def filter_toEvents(3) image_Un)
    with Cons.prems(2) Cons.IH [OF events(1)] show ?thesis by (auto simp: x inspections_def)
  qed
qed (simp add: keys_def)

lemma registered_keys:
  "k \<in> keys (registered es input) \<Longrightarrow> k \<in> keys es \<or> (\<exists>(i, inspect) \<in> set (inspections [] input). k \<in> keys (container_entries inspect i))"
proof (induction input arbitrary: es)
  case (Cons x input)
  obtain e inspect where x: "x = (e, inspect)" by fastforce
  have seen: "set (inspections [] (x # input)) = insert (ae_ActorID e, inspect) (set (inspections [] input))"
    by (simp add: inspections_def x)
  have "keys (register x es) \<subseteq> keys es \<union> keys (container_entries inspect (ae_ActorID e))"
    using register_subset [of e inspect es] unfolding x keys_def by auto
  with Cons.IH [of "register x es"] Cons.prems show ?case unfolding seen by auto
qed simp

section \<open>Starting with Docker\<close>

lemma activeEvents_entries: "activeEvents conts = Ret evs \<Longrightarrow> evs = toEvents (listed_entries conts) True"
proof (induction conts arbitrary: evs)
  case (Cons x conts)
  obtain i inspect where x: "x = (i, inspect)" by fastforce
  with Cons.prems obtain r out where "getContainerEvents inspect i True = Ret r" "activeEvents conts = Ret out"
    "evs = (case r of Inl err \<Rightarrow> [] | Inr events \<Rightarrow> events) @ out" by auto
  with Cons.IH show ?case
    using getContainerEvents_container_entries [of inspect i True r] by (simp add: x toEvents_def listed_entries_def)
qed (simp add: toEvents_def listed_entries_def)

lemma mux_targets_zero: "mux_targets Mux_zero = routes []"
  by (simp add: mux_targets_def routes_def fun_eq_iff)

lemma NewServer_docker:
  assumes "NewServer os newConfig docker cfg = Ret (s, watched)" "sc_WatchDockerEvents cfg"
  obtains s0 s1 derr where "watchDockerEvents os docker s0 = Ret (derr, s1)" "sv_mux s0 = Mux_zero"
    "sv_mux s = sv_mux s1" "sv_factory s = sv_factory s1"
proof -
  define s' where "s' = \<lparr>sv_mux = Mux_zero, sv_config = cfg,
    sv_factory = NewHandlerFactory (case URL_Parse (sc_PHPAddr cfg) of Inl e \<Rightarrow> None | Inr u \<Rightarrow> Some u),
    sv_log = (case URL_Parse (sc_PHPAddr cfg) of Inl e \<Rightarrow> [LogURL e] | Inr u \<Rightarrow> [])\<rparr>"
  define err where "err = fst (if length (sc_ConfigFile cfg) > 0 then loadConfig newConfig s' else (None, None))"
  define s0 where "s0 = (case err of None \<Rightarrow> s' | Some e \<Rightarrow> Println (LogConfigError e) s')"
  have "NewServer os newConfig docker cfg = bind_outcome (watchDockerEvents os docker s0) (\<lambda>(derr, s2).
      Ret (case derr of None \<Rightarrow> s2 | Some e \<Rightarrow> Println (LogDocker e) s2,
        snd (if length (sc_ConfigFile cfg) > 0 then loadConfig newConfig s' else (None, None))))"
    unfolding NewServer_def Let_def s0_def err_def s'_def using assms(2) by (simp split: sum.splits prod.splits)
  with assms(1) obtain derr s1 where "watchDockerEvents os docker s0 = Ret (derr, s1)"
    "s = (case derr of None \<Rightarrow> s1 | Some e \<Rightarrow> Println (LogDocker e) s1)" by auto
  then show thesis
    by (intro that [of s0 derr s1]) (simp_all add: s0_def s'_def Println_def split: option.splits)
qed

lemma NewServer_watched: "NewServer os newConfig docker cfg = Ret (s, Some c0) \<Longrightarrow> newConfig = Inr c0"
  unfolding NewServer_def Let_def loadConfig_def by (auto split: if_splits sum.splits prod.splits)

lemma NewServer_with_containers:
  assumes "NewServer os newConfig docker cfg = Ret (s, watched)" "sc_WatchDockerEvents cfg"
    and "dk_New docker = None" "dk_List docker = Inr conts"
  shows "holds os (listed_entries conts) s" "built os s"
proof -
  obtain s0 s1 derr where w: "watchDockerEvents os docker s0 = Ret (derr, s1)" and s0: "sv_mux s0 = Mux_zero"
    and s: "sv_mux s = sv_mux s1" "sv_factory s = sv_factory s1"
    by (rule NewServer_docker [OF assms(1,2)])
  obtain evs where evs: "activeEvents conts = Ret evs" "s1 = ProcessEvents os evs s0"
    using w assms(3,4) unfolding watchDockerEvents_def NewDockerWatch_def GetActiveContainers_def Let_def
    by (cases "activeEvents conts"; cases "GetConfigEvents (dk_Events docker)") auto
  note e = activeEvents_entries [OF evs(1)]
  have wf: "wf_mux (sv_mux s0)" by (simp add: s0)
  have empty: "mux_targets (sv_mux s0) = routes []" by (simp add: s0 mux_targets_zero)
  have "fold targets_op (event_ops os (sv_factory s0) evs) (routes []) = routes (listed_entries conts)"
    using routes_start [OF listed_entries_http [of conts], of os "sv_factory s0" "[]"] by (simp add: e)
  then show "holds os (listed_entries conts) s"
    using ProcessEvents_targets [OF wf, of os evs] empty by (simp add: holds_def s evs(2) accepted_http [OF listed_entries_http])
  have "built os s0" by (simp add: built_def s0)
  from built_ProcessEvents [OF wf this, of evs] show "built os s" by (simp add: built_def s evs(2) ProcessEvents_fields)
qed

section \<open>Both sources\<close>

lemma holds_both:
  assumes "holds os (listed_entries conts) s" "holds os es (ProcessEvents os xs (s\<lparr>sv_mux := Mux_zero\<rparr>))"
    and "convertEvents input = Ret batches" "zs \<in> shuffles xs (concat batches)"
    and disjoint: "\<forall>(i, inspect) \<in> set (inspections conts input). keys (map ev_ConfigEntry xs) \<inter> keys (container_entries inspect i) = {}"
  shows "holds os (es @ registered (listed_entries conts) input) (ProcessEvents os zs s)"
proof -
  let ?hf = "sv_factory s" let ?ops = "event_ops os ?hf" let ?t = "routes (listed_entries conts)" let ?reg = "registered (listed_entries conts) input"
  have wf: "wf_mux (sv_mux s)" "mux_targets (sv_mux s) = ?t" using assms(1) by (simp_all add: holds_def accepted_http [OF listed_entries_http])
  have fold: "fold targets_op (?ops (concat batches)) ?t = routes ?reg" by (rule routes_of_registered [OF assms(3)])
  have static: "fold targets_op (?ops xs) (routes []) = routes (accepted os ?hf es)"
    using assms(2) ProcessEvents_targets(2) [of "s\<lparr>sv_mux := Mux_zero\<rparr>" os xs]
    by (simp add: holds_def ProcessEvents_fields mux_targets_zero)
  have unseen: "\<not> (\<exists>(i, inspect) \<in> set (inspections [] input). k \<in> keys (container_entries inspect i))" "k \<notin> keys (listed_entries conts)"
    if "k \<in> keys (map ev_ConfigEntry xs)" for k
    using that disjoint by (fastforce simp: inspections_def listed_entries_def keys_def)+
  have d: "op_key x \<noteq> k" if "k \<in> keys (map ev_ConfigEntry xs)" "x \<in> set (?ops (concat batches))" for x k
    using event_ops_keys [OF that(2)] convertEvents_keys [OF assms(3)] unseen(1) [OF that(1)] by metis
  have c0: "occs (listed_entries conts) k = 0" "occs ?reg k = 0" if "k \<in> keys (map ev_ConfigEntry xs)" for k
    using unseen [OF that] registered_keys [of k input "listed_entries conts"] unfolding occs_0_iff by blast+
  have "fold targets_op (?ops (concat batches)) (fold targets_op (?ops xs) ?t) = routes (accepted os ?hf es @ ?reg)"
  proof (intro ext multiset_eqI)
    fix p j
    show "count (fold targets_op (?ops (concat batches)) (fold targets_op (?ops xs) ?t) p) j = count (routes (accepted os ?hf es @ ?reg) p) j"
    proof (cases "(p, j) \<in> keys (map ev_ConfigEntry xs)")
      case True
      then have "count (fold targets_op (?ops xs) ?t p) j = count (fold targets_op (?ops xs) (routes []) p) j"
        using c0 by (intro count_fold_cong) (simp add: count_routes)
      then show ?thesis using d [OF True] c0 [OF True] by (simp add: count_fold_other static count_routes)
    next
      case False
      then have other: "\<forall>x \<in> set (?ops xs). op_key x \<noteq> (p, j)" using event_ops_keys [of _ os ?hf xs] by metis
      have "occs (accepted os ?hf es) (p, j) = 0"
        using count_fold_other [OF other, of "routes []"] by (simp add: static count_routes)
      moreover have "count (fold targets_op (?ops (concat batches)) (fold targets_op (?ops xs) ?t) p) j =
          count (fold targets_op (?ops (concat batches)) ?t p) j"
        using other by (intro count_fold_cong count_fold_other)
      ultimately show ?thesis by (simp add: fold count_routes)
    qed
  qed
  moreover have "fold targets_op (?ops zs) ?t = fold targets_op (?ops (concat batches)) (fold targets_op (?ops xs) ?t)"
  proof (rule fold_targets_shuffle)
    show "?ops zs \<in> shuffles (?ops xs) (?ops (concat batches))" using assms(4) by (rule shuffles_concat_map)
    show "\<forall>x \<in> set (?ops xs). \<forall>y \<in> set (?ops (concat batches)). op_key x \<noteq> op_key y"
      using d event_ops_keys [of _ os ?hf xs] by metis
  qed
  moreover have "accepted os ?hf (es @ ?reg) = accepted os ?hf es @ ?reg"
    using accepted_http [OF registered_http [OF listed_entries_http [of conts], of input], of os ?hf] by (simp add: accepted_def)
  ultimately show ?thesis
    using ProcessEvents_targets [OF wf(1), of os zs] wf(2) by (simp add: holds_def ProcessEvents_fields)
qed


definition web_container :: "string + Container" where
  "web_container = Inr (example_container [''VIRTUAL_HOST=c.com''] [(''8080/tcp'', [\<lparr>pb_HostIP = [], pb_HostPort = ''80''\<rparr>])])"

lemma web_container_events:
  "getContainerEvents web_container i up = Ret (Inr [\<lparr>ev_ConfigEntry = plain_entry ''c.com'' ''localhost:80'', ev_Up = up\<rparr>])"
proof -
  let ?env = "[''VIRTUAL_HOST=c.com'']"
  have "Env_Get ?env ''VIRTUAL_HOST'' = ''c.com''" "Env_Get ?env ''VIRTUAL_PORT'' = []" "Fields ''c.com'' = [''c.com'']"
    "findBinding ''8080'' [(''8080/tcp'', [\<lparr>pb_HostIP = [], pb_HostPort = ''80''\<rparr>])] = Some \<lparr>pb_HostIP = [], pb_HostPort = ''80''\<rparr>"
    "URL_Parse ''http://localhost:80'' = Inr (ce_Target (plain_entry ''c.com'' ''localhost:80''))" by code_simp+
  then show ?thesis
    by (simp add: getContainerEvents_def web_container_def example_container_def plain_entry_def del: findBinding.simps)
qed


section \<open>Containers that exit by themselves\<close>

text \<open>
  A container that exits by itself dies, but it is not stopped: the daemon reports a \<open>die\<close> event, which is ignored. Its
  routes stay, and when it is started again they are registered a second time, so that stopping it leaves them in the router.
\<close>

theorem crashed_container_leaks_routes:
  assumes "wf_mux (sv_mux s)" "getContainerEvents inspect i True = Ret r"
  shows "\<exists>batches. convertEvents (map (\<lambda>action. (\<lparr>ae_Type = ''container'', ae_Action = action, ae_ActorID = i\<rparr>, inspect))
        [''start'', ''die'', ''start'', ''stop'']) = Ret batches \<and>
    mux_targets (sv_mux (ProcessEvents os (concat batches) s)) = (\<lambda>p. mux_targets (sv_mux s) p + routes (container_entries inspect i) p)"
proof -
  let ?es = "container_entries inspect i" and ?hf = "sv_factory s"
  obtain r' where stop: "getContainerEvents inspect i False = Ret r'" using assms(2) by (simp add: getContainerEvents_mirror)
  note ev = getContainerEvents_container_entries [of inspect i]
  let ?single = "map (\<lambda>ev. [ev])"
  have "convertEvents (map (\<lambda>action. (\<lparr>ae_Type = ''container'', ae_Action = action, ae_ActorID = i\<rparr>, inspect)) [''start'', ''die'', ''start'', ''stop'']) =
      Ret (?single (toEvents ?es True) @ ?single (toEvents ?es True) @ ?single (toEvents ?es False) @ [])"
    using assms(2) stop ev [OF assms(2)] ev [OF stop] by simp
  moreover have "concat (?single (toEvents ?es True) @ ?single (toEvents ?es True) @ ?single (toEvents ?es False) @ []) =
      toEvents (?es @ ?es) True @ toEvents ?es False"
    by (simp only: single_batches) (simp add: toEvents_def)
  moreover have "mux_targets (sv_mux (ProcessEvents os (toEvents (?es @ ?es) True @ toEvents ?es False) s)) p =
      mux_targets (sv_mux s) p + routes ?es p" for p
    unfolding ProcessEvents_targets(2) [OF assms(1)]
    using accepted_http [of "?es @ ?es" os ?hf] container_entries_http [of inspect i] by (intro multiset_eqI) (simp only: count_up_down, auto simp: count_routes)
  ultimately show ?thesis by (intro exI conjI) (assumption, simp only: fun_eq_iff, simp)
qed

end
