(* ===== verification/Main_Program.thy ===== *)
theory Main_Program
  imports Server
begin

text \<open>
  The program, \<open>src/cmd/razvhost/main.go\<close>: the configuration of the server from the command line, and the listeners that
  \<open>Serve\<close> and \<open>Debug\<close> of \<open>src/pkg/server/server.go\<close> start. The command line is given as the values that \<open>flag\<close> has parsed;
  printing the version, waiting for a signal and shutting down are the subject of the theory \<open>Process\<close>.
\<close>

section \<open>The command line\<close>

record Flags =
  fl_ConfigFile :: string
  fl_CertsDir :: string
  fl_NoCert :: bool
  fl_NoServerHeader :: bool
  fl_WatchDockerEvents :: bool
  fl_EnableHTTP2 :: bool
  fl_DiscardHeaders :: string
  fl_PHPAddr :: string
  fl_DebugAddr :: string

text \<open>The values when no argument is given.\<close>

definition default_flags :: Flags where
  "default_flags =
     \<lparr>fl_ConfigFile = ''config'', fl_CertsDir = ''certs'', fl_NoCert = False, fl_NoServerHeader = False,
      fl_WatchDockerEvents = False, fl_EnableHTTP2 = False, fl_DiscardHeaders = [],
      fl_PHPAddr = ''unix:///var/run/php/php-fpm.sock'', fl_DebugAddr = []\<rparr>"

definition defaultDiscardHeaders :: "string list" where
  "defaultDiscardHeaders =
     [''x-client-ip'', ''cf-connecting-ip'', ''fastly-client-ip'', ''true-client-ip'', ''x-real-ip'',
      ''x-cluster-client-ip'', ''x-forwarded'', ''forwarded-for'', ''forwarded'']"

definition serverHeader :: "string \<Rightarrow> Flags \<Rightarrow> (string \<times> string) list" where
  "serverHeader version fl =
     (if \<not> fl_NoServerHeader fl then
        (if length version > 0 then [(''Server'', ''razvhost/'' @ version)] else [(''Server'', ''razvhost'')])
      else [])"

definition main_config :: "string \<Rightarrow> Flags \<Rightarrow> ServerConfig" where
  "main_config version fl =
     \<lparr>sc_ConfigFile = fl_ConfigFile fl, sc_CertsDir = fl_CertsDir fl, sc_NoCert = fl_NoCert fl,
      sc_WatchDockerEvents = fl_WatchDockerEvents fl, sc_EnableHTTP2 = fl_EnableHTTP2 fl,
      sc_DiscardHeaders = Split (fl_DiscardHeaders fl) CHR '','' @ defaultDiscardHeaders,
      sc_ExtraHeaders = serverHeader version fl, sc_PHPAddr = fl_PHPAddr fl\<rparr>"

section \<open>Listeners\<close>

text \<open>What answers the connections of a listener: \<open>ServeSites\<close> is the server's own handler; \<open>ServeACME\<close> is the handler of the certificate manager, which serves no
  site; \<open>ServeDebug\<close> is the debug interface, which serves the same sites, each below its host name as the first segment of the path (\<open>Debug_ServeHTTP\<close>).\<close>

datatype service = ServeSites | ServeACME | ServeDebug

record Listener =
  li_Addr :: string
  li_TLS :: bool
  li_Service :: service

definition Serve :: "Server \<Rightarrow> Listener list" where
  "Serve s =
     (if sc_NoCert (sv_config s) then [\<lparr>li_Addr = '':80'', li_TLS = False, li_Service = ServeSites\<rparr>]
      else [\<lparr>li_Addr = '':80'', li_TLS = False, li_Service = ServeACME\<rparr>,
            \<lparr>li_Addr = '':443'', li_TLS = True, li_Service = ServeSites\<rparr>])"

text \<open>\<open>Serve\<close> returns the first error that one of its listeners reports, given the order in which they end.\<close>

definition Serve_result :: "(Listener \<times> string) list \<Rightarrow> Server \<Rightarrow> string option" where
  "Serve_result ends s = map_option snd (find (\<lambda>(li, err). li \<in> set (Serve s)) ends)"

definition Debug :: "string \<Rightarrow> Listener" where
  "Debug addr = \<lparr>li_Addr = addr, li_TLS = False, li_Service = ServeDebug\<rparr>"

definition main_listeners :: "Flags \<Rightarrow> Server \<Rightarrow> Listener list" where
  "main_listeners fl s = (if length (fl_DebugAddr fl) > 0 then [Debug (fl_DebugAddr fl)] else []) @ Serve s"

definition main :: "OS \<Rightarrow> config_error + Config \<Rightarrow> Docker \<Rightarrow> string \<Rightarrow> Flags \<Rightarrow> (Server \<times> Config option \<times> Listener list) outcome" where
  "main os newConfig docker version fl =
     bind_outcome (NewServer os newConfig docker (main_config version fl)) (\<lambda>(srv, watched).
       Ret (srv, watched, main_listeners fl srv))"

section \<open>What the program starts with\<close>

lemma ProcessEvents_config: "sv_config (ProcessEvents os es s) = sv_config s"
  by (simp add: ProcessEvents_fields)

lemma watchDockerEvents_config:
  assumes "watchDockerEvents os docker s = Ret (err, s')"
  shows "sv_config s' = sv_config s"
proof (cases "NewDockerWatch (dk_New docker)")
  case (Inr u)
  with assms obtain r where r: "GetActiveContainers (dk_List docker) = Ret r" by (auto simp: watchDockerEvents_def)
  show ?thesis
    using assms Inr
    by (cases r; cases "GetConfigEvents (dk_Events docker)") (auto simp: watchDockerEvents_def r ProcessEvents_config)
qed (use assms in \<open>simp add: watchDockerEvents_def\<close>)

lemma NewServer_config:
  assumes "NewServer os newConfig docker cfg = Ret (s, watched)"
  shows "sv_config s = cfg"
  using assms
  by (auto simp: NewServer_def Let_def Println_def split: prod.splits if_splits option.splits
      dest!: watchDockerEvents_config)

lemma default_discard_keys:
  "k \<in> set defaultDiscardHeaders \<Longrightarrow> CanonicalHeaderKey k \<noteq> CanonicalHeaderKey ''Server''"
proof -
  have "list_all (\<lambda>k. CanonicalHeaderKey k \<noteq> CanonicalHeaderKey ''Server'') defaultDiscardHeaders" by code_simp
  then show "k \<in> set defaultDiscardHeaders \<Longrightarrow> CanonicalHeaderKey k \<noteq> CanonicalHeaderKey ''Server''"
    by (simp add: list_all_iff)
qed

text \<open>
  What the sites are told about addresses, and how they can be reached. Whatever the command line and the request: the handlers see none
  of the headers that are discarded by default (\<open>X-Forwarded-For\<close> is not among them), and they see the address of the
  connection in the server's own header, unless the command line discards that one. A listener that serves the sites without
  encryption is the debug interface, if one is asked for, or port 80 when certificates are switched off.
\<close>

theorem main_headers_and_listeners:
  assumes "main os newConfig docker version fl = Ret (srv, watched, listeners)"
  shows "(\<forall>k \<in> set defaultDiscardHeaders. Header_Get (r_Header (snd (updateHeaders (sv_config srv) wh r))) k = []) \<and>
    (''X-Razvhost-Remoteaddr'' \<notin> CanonicalHeaderKey ` set (Split (fl_DiscardHeaders fl) CHR '','') \<longrightarrow>
      Header_Get (r_Header (snd (updateHeaders (sv_config srv) wh r))) ''X-Razvhost-Remoteaddr'' = r_RemoteAddr r) \<and>
    filter (\<lambda>li. li_Service li \<in> {ServeSites, ServeDebug} \<and> \<not> li_TLS li) listeners =
      (if fl_DebugAddr fl = [] then [] else [Debug (fl_DebugAddr fl)]) @
      (if fl_NoCert fl then [\<lparr>li_Addr = '':80'', li_TLS = False, li_Service = ServeSites\<rparr>] else [])"
proof -
  have cfg: "sv_config srv = main_config version fl" and li: "listeners = main_listeners fl srv"
    using assms NewServer_config by (auto simp: main_def)
  have extra: "(CanonicalHeaderKey \<circ> fst) ` set (sc_ExtraHeaders (main_config version fl)) \<subseteq> {CanonicalHeaderKey ''Server''}"
    by (auto simp: main_config_def serverHeader_def)
  have ra: "CanonicalHeaderKey ''X-Razvhost-Remoteaddr'' = ''X-Razvhost-Remoteaddr''"
    "CanonicalHeaderKey ''X-Razvhost-Remoteaddr'' \<noteq> CanonicalHeaderKey ''Server''"
    "''X-Razvhost-Remoteaddr'' \<notin> CanonicalHeaderKey ` set defaultDiscardHeaders" by code_simp+
  have discard: "sc_DiscardHeaders (main_config version fl) = Split (fl_DiscardHeaders fl) CHR '','' @ defaultDiscardHeaders"
    by (simp add: main_config_def)
  have get: "Header_Get (r_Header (snd (updateHeaders (main_config version fl) wh r))) k =
     (if CanonicalHeaderKey k \<in> CanonicalHeaderKey ` set (Split (fl_DiscardHeaders fl) CHR '','' @ defaultDiscardHeaders) then []
      else if CanonicalHeaderKey k = ''X-Razvhost-Remoteaddr'' then r_RemoteAddr r
      else if CanonicalHeaderKey k = ''X-Forwarded-Host'' then r_Host r
      else Header_Get (r_Header r) k)" if "CanonicalHeaderKey k \<noteq> CanonicalHeaderKey ''Server''" for k
    using updated_header [of k "main_config version fl"] that extra unfolding discard by blast
  show ?thesis
    unfolding cfg using get default_discard_keys get [OF ra(2)] ra
    by (auto simp: li main_listeners_def Serve_def Debug_def cfg main_config_def)
qed

lemma main_default:
  obtains srv where "main empty_OS newConfig docker ''1.0'' default_flags =
       Ret (srv, case newConfig of Inl err \<Rightarrow> None | Inr c \<Rightarrow> Some c,
         [\<lparr>li_Addr = '':80'', li_TLS = False, li_Service = ServeACME\<rparr>, \<lparr>li_Addr = '':443'', li_TLS = True, li_Service = ServeSites\<rparr>])"
proof -
  obtain srv where srv: "NewServer empty_OS newConfig docker (main_config ''1.0'' default_flags) =
      Ret (srv, case newConfig of Inl err \<Rightarrow> None | Inr c \<Rightarrow> Some c)"
    by (cases "URL_Parse ''unix:///var/run/php/php-fpm.sock''"; cases newConfig)
      (auto simp: NewServer_def Let_def main_config_def default_flags_def loadConfig_def)
  with that NewServer_config [OF srv] show thesis
    by (simp add: main_def main_listeners_def Serve_def main_config_def default_flags_def)
qed

theorem main_headers_and_listeners_witness:
  "\<exists>srv listeners. main empty_OS (Inl (OpenError ''no such file'')) \<lparr>dk_New = None, dk_List = Inr [], dk_Events = None\<rparr> ''1.0'' default_flags =
       Ret (srv, None, listeners) \<and>
     Header_Get (r_Header (snd (updateHeaders (sv_config srv) no_headers (get_request ''a.com'' ''/'')))) ''x-real-ip'' = []"
proof -
  obtain srv where m: "main empty_OS (Inl (OpenError ''no such file'')) \<lparr>dk_New = None, dk_List = Inr [], dk_Events = None\<rparr>
      ''1.0'' default_flags = Ret (srv, None, [\<lparr>li_Addr = '':80'', li_TLS = False, li_Service = ServeACME\<rparr>,
        \<lparr>li_Addr = '':443'', li_TLS = True, li_Service = ServeSites\<rparr>])"
    by (rule main_default [of "Inl (OpenError ''no such file'')", unfolded sum.case])
  then show ?thesis
    using main_headers_and_listeners [OF m] by (intro exI [of _ srv] exI) (simp add: defaultDiscardHeaders_def)
qed

end
