(* ===== verification/Process.thy ===== *)
theory Process
  imports Main_Program
begin

text \<open>
  The life of the process, \<open>src/cmd/razvhost/main.go\<close>: printing the version, serving in goroutines, waiting for a signal and
  shutting down. \<open>log.Fatal\<close> ends the process with status 1 wherever it is called. \<open>Shutdown\<close> of \<open>net/http\<close> closes
  the listeners of the server it is called on at once, waits until none of their requests is in progress and then returns; closing the listeners
  makes \<open>ListenAndServe\<close> return \<open>ErrServerClosed\<close> in the goroutine that called it. The program calls it on the server of the sites only: the
  listeners that \<open>http.ListenAndServe\<close> starts for the debug interface and for ACME go on accepting requests, and nobody waits for these.
\<close>

section \<open>Flags that end the program\<close>

text \<open>What \<open>init\<close> prints before it exits with status 0, if the version was asked for.\<close>

definition main_init :: "string \<Rightarrow> bool \<Rightarrow> string option" where
  "main_init version showVersion =
     (if showVersion then Some (if length version > 0 then ''Version: '' @ version else ''Unknown version'') else None)"

section \<open>Phases\<close>

datatype phase = Serving | ShuttingDown | Exited nat

fun rank :: "phase \<Rightarrow> nat" where
  "rank Serving = 0"
| "rank ShuttingDown = 1"
| "rank (Exited status) = status + 2"

lemma rank_inject: "rank p = rank q \<Longrightarrow> p = q"
  by (cases p; cases q) simp_all

instantiation phase :: linorder
begin

definition less_eq_phase :: "phase \<Rightarrow> phase \<Rightarrow> bool" where
  "p \<le> q \<longleftrightarrow> rank p \<le> rank q"

definition less_phase :: "phase \<Rightarrow> phase \<Rightarrow> bool" where
  "p < q \<longleftrightarrow> rank p < rank q"

instance
  by standard (auto simp: less_eq_phase_def less_phase_def dest: rank_inject)

end

lemmas phase_order = less_eq_phase_def less_phase_def

section \<open>Steps\<close>

text \<open>\<open>pr_sites\<close>: the listener of the sites is open; \<open>pr_requests\<close>: its requests in progress; \<open>pr_unmanaged\<close>: there is a listener for the
  debug interface or for ACME; \<open>pr_others\<close>: requests in progress there.\<close>

record Process =
  pr_phase :: phase
  pr_sites :: bool
  pr_requests :: nat
  pr_unmanaged :: bool
  pr_others :: nat

definition process_start :: "Listener list \<Rightarrow> Process" where
  "process_start listeners =
     \<lparr>pr_phase = Serving, pr_sites = list_ex (\<lambda>li. li_Service li = ServeSites) listeners, pr_requests = 0,
      pr_unmanaged = list_ex (\<lambda>li. li_Service li \<in> {ServeACME, ServeDebug}) listeners, pr_others = 0\<rparr>"

definition log_Fatal :: "Process \<Rightarrow> Process" where
  "log_Fatal s = s\<lparr>pr_phase := Exited 1, pr_sites := False\<rparr>"

definition Server_Shutdown :: "Process \<Rightarrow> Process" where
  "Server_Shutdown s = s\<lparr>pr_phase := ShuttingDown, pr_sites := False\<rparr>"

text \<open>The signals that \<open>main\<close> waits for; what other signals do is up to the operating system.\<close>

datatype signal = SIGINT | SIGTERM | SIGHUP | OtherSignal

definition waitForSignal :: "signal \<Rightarrow> bool" where
  "waitForSignal sig \<longleftrightarrow> sig \<in> {SIGINT, SIGTERM, SIGHUP}"

text \<open>The errors that end the process are those of the listeners of \<open>Serve\<close> and \<open>Debug\<close>, of \<open>Serve\<close> once its listener is closed,
  and of \<open>Shutdown\<close>.\<close>

inductive main_step :: "Process \<Rightarrow> Process \<Rightarrow> bool" where
  accept: "pr_sites s \<Longrightarrow> main_step s (s\<lparr>pr_requests := pr_requests s + 1\<rparr>)"
| answer: "pr_phase s \<in> {Serving, ShuttingDown} \<Longrightarrow> pr_requests s = Suc n \<Longrightarrow> main_step s (s\<lparr>pr_requests := n\<rparr>)"
| accept_other: "pr_phase s \<in> {Serving, ShuttingDown} \<Longrightarrow> pr_unmanaged s \<Longrightarrow> main_step s (s\<lparr>pr_others := pr_others s + 1\<rparr>)"
| answer_other: "pr_phase s \<in> {Serving, ShuttingDown} \<Longrightarrow> pr_others s = Suc n \<Longrightarrow> main_step s (s\<lparr>pr_others := n\<rparr>)"
| listener_fails: "pr_phase s = Serving \<Longrightarrow> main_step s (log_Fatal s)"
| signal: "pr_phase s = Serving \<Longrightarrow> waitForSignal sig \<Longrightarrow> main_step s (Server_Shutdown s)"
| serve_returns: "pr_phase s = ShuttingDown \<Longrightarrow> main_step s (log_Fatal s)"
| shutdown_returns: "pr_phase s = ShuttingDown \<Longrightarrow> pr_requests s = 0 \<Longrightarrow> main_step s (s\<lparr>pr_phase := Exited 0\<rparr>)"
| shutdown_fails: "pr_phase s = ShuttingDown \<Longrightarrow> pr_requests s = 0 \<Longrightarrow> main_step s (log_Fatal s)"

inductive_cases main_stepE: "main_step s s'"

lemmas process_defs = process_start_def log_Fatal_def Server_Shutdown_def

section \<open>Invariants\<close>

text \<open>The process only moves on: it never serves again, and it exits once.\<close>

lemma main_step_phase: "main_step s s' \<Longrightarrow> pr_phase s \<le> pr_phase s'"
  by (erule main_stepE) (auto simp: process_defs phase_order)

lemma main_steps_phase: "main_step\<^sup>*\<^sup>* s s' \<Longrightarrow> pr_phase s \<le> pr_phase s'"
  by (induction rule: rtranclp_induct) (auto dest: main_step_phase)

definition process_ok :: "Process \<Rightarrow> bool" where
  "process_ok s \<longleftrightarrow> (pr_phase s \<noteq> Serving \<longrightarrow> \<not> pr_sites s) \<and> (pr_phase s = Exited 0 \<longrightarrow> pr_requests s = 0)"

lemma process_ok_step: "main_step s s' \<Longrightarrow> process_ok s \<Longrightarrow> process_ok s'"
  by (erule main_stepE) (auto simp: process_ok_def process_defs)

lemma process_ok_steps: "main_step\<^sup>*\<^sup>* s s' \<Longrightarrow> process_ok s \<Longrightarrow> process_ok s'"
  by (induction rule: rtranclp_induct) (auto intro: process_ok_step)

lemma process_ok_start: "process_ok (process_start listeners)"
  by (simp add: process_ok_def process_start_def)

section \<open>Properties\<close>

text \<open>
  The process serves until a signal arrives or a listener fails, and never again: its phases follow one another, requests to the sites are accepted only while
  it serves, and it exits with status 0 only when no request to the sites is in progress. Requests to the debug
  interface and to ACME do not count.
\<close>

theorem process_phases:
  assumes "main_step\<^sup>*\<^sup>* (process_start listeners) s"
  shows "(pr_sites s \<longrightarrow> pr_phase s = Serving) \<and> (pr_phase s = Exited 0 \<longrightarrow> pr_requests s = 0) \<and>
    (\<forall>s'. main_step\<^sup>*\<^sup>* s s' \<longrightarrow> pr_phase s \<le> pr_phase s')"
  using process_ok_steps [OF assms process_ok_start] main_steps_phase by (auto simp: process_ok_def)

theorem process_phases_witness:
  "\<exists>s. main_step\<^sup>*\<^sup>* (process_start [Debug '':8080'']) s \<and> pr_phase s = ShuttingDown \<and> \<not> pr_sites s"
proof -
  let ?s = "Server_Shutdown (process_start [Debug '':8080''])"
  have "main_step\<^sup>*\<^sup>* (process_start [Debug '':8080'']) ?s"
    by (intro r_into_rtranclp signal [of _ SIGINT]) (simp_all add: process_start_def waitForSignal_def)
  with process_phases [OF this] show ?thesis by (intro exI [of _ ?s]) (auto simp: Server_Shutdown_def)
qed

text \<open>
  A graceful shutdown abandons the requests of the debug interface and of ACME. As soon as no request to the sites is in progress, the
  process can exit with status 0, with any number of the other requests unanswered.
\<close>

theorem shutdown_abandons_other_requests:
  assumes "pr_phase s = Serving" "pr_requests s = 0"
  shows "\<exists>s'. main_step\<^sup>*\<^sup>* s s' \<and> pr_phase s' = Exited 0 \<and> pr_others s' = pr_others s"
proof -
  let ?d = "Server_Shutdown s"
  have "main_step s ?d" using assms(1) by (rule signal [of _ SIGTERM]) (simp add: waitForSignal_def)
  moreover have "main_step ?d (?d\<lparr>pr_phase := Exited 0\<rparr>)"
    using assms(2) by (intro shutdown_returns) (simp_all add: Server_Shutdown_def)
  ultimately have "main_step\<^sup>*\<^sup>* s (?d\<lparr>pr_phase := Exited 0\<rparr>)" by (meson r_into_rtranclp rtranclp_trans)
  then show ?thesis by (intro exI [of _ "?d\<lparr>pr_phase := Exited 0\<rparr>"]) (simp add: Server_Shutdown_def)
qed

theorem shutdown_abandons_other_requests_witness:
  "\<exists>s'. main_step\<^sup>*\<^sup>* ((process_start [Debug '':8080''])\<lparr>pr_others := 3\<rparr>) s' \<and> pr_phase s' = Exited 0 \<and> pr_others s' = 3"
  using shutdown_abandons_other_requests [of "(process_start [Debug '':8080''])\<lparr>pr_others := 3\<rparr>"] by (simp add: process_start_def)

text \<open>
  The graceful shutdown can be cut short. As soon as \<open>Shutdown\<close> has closed the listener, \<open>Serve\<close> returns \<open>ErrServerClosed\<close>,
  which the goroutine of \<open>main\<close> takes for a failure and passes to \<open>log.Fatal\<close>: from every serving state with any
  number of requests in progress, a signal can end the process with status 1 and none of them answered.
\<close>

theorem signal_can_abort_requests:
  assumes "pr_phase s = Serving"
  shows "main_step s (Server_Shutdown s) \<and> main_step (Server_Shutdown s) (log_Fatal (Server_Shutdown s)) \<and>
    pr_phase (log_Fatal (Server_Shutdown s)) = Exited 1 \<and> pr_requests (log_Fatal (Server_Shutdown s)) = pr_requests s"
proof -
  have "main_step s (Server_Shutdown s)" using assms by (rule signal [of _ SIGTERM]) (simp add: waitForSignal_def)
  moreover have "main_step (Server_Shutdown s) (log_Fatal (Server_Shutdown s))"
    by (rule serve_returns) (simp add: Server_Shutdown_def)
  ultimately show ?thesis by (simp add: log_Fatal_def Server_Shutdown_def)
qed

theorem signal_can_abort_requests_witness:
  "\<exists>s'. main_step\<^sup>*\<^sup>* ((process_start [Debug '':8080''])\<lparr>pr_requests := 7\<rparr>) s' \<and> pr_phase s' = Exited 1 \<and> pr_requests s' = 7"
proof -
  let ?s = "(process_start [Debug '':8080''])\<lparr>pr_requests := 7\<rparr>"
  have "pr_phase ?s = Serving" by (simp add: process_start_def)
  note abort = signal_can_abort_requests [OF this]
  then have "main_step\<^sup>*\<^sup>* ?s (log_Fatal (Server_Shutdown ?s))" by (meson r_into_rtranclp rtranclp_trans)
  with abort show ?thesis by (intro exI [of _ "log_Fatal (Server_Shutdown ?s)"]) simp
qed

end
