(* ===== verification/Util.thy ===== *)
theory Util
  imports GoHTTP
begin

text \<open>
  The helpers of \<open>src/pkg/util\<close>: the formatting of byte counts, with 64-bit arithmetic and the rounding of \<open>%.1f\<close> written
  out, and the counting reader and response writer.
\<close>

section \<open>Integers of 64 bits and decimal printing\<close>

definition wrap64 :: "int \<Rightarrow> int" where
  "wrap64 x = (x + 2 ^ 63) mod 2 ^ 64 - 2 ^ 63"

definition int64 :: "int \<Rightarrow> bool" where
  "int64 x \<longleftrightarrow> - (2 ^ 63) \<le> x \<and> x < 2 ^ 63"

lemma wrap64_id: "int64 x \<Longrightarrow> wrap64 x = x"
  by (simp add: wrap64_def int64_def)

lemma wrap64_add: "wrap64 (wrap64 a + b) = wrap64 (a + b)"
proof -
  have "(wrap64 a + b + 2 ^ 63) mod 2 ^ 64 = ((a + 2 ^ 63) mod 2 ^ 64 + b) mod 2 ^ 64"
    by (simp add: wrap64_def algebra_simps)
  also have "\<dots> = (a + b + 2 ^ 63) mod 2 ^ 64"
    by (simp add: mod_simps algebra_simps)
  finally show ?thesis unfolding wrap64_def by simp
qed

definition digit_char :: "nat \<Rightarrow> char" where
  "digit_char n = ''0123456789'' ! n"

fun show_nat :: "nat \<Rightarrow> string" where
  "show_nat n = (if n < 10 then [digit_char n] else show_nat (n div 10) @ [digit_char (n mod 10)])"

declare show_nat.simps [simp del]

definition show_int :: "int \<Rightarrow> string" where
  "show_int i = (if i < 0 then CHR ''-'' # show_nat (nat (- i)) else show_nat (nat i))"

section \<open>Byte counts\<close>

text \<open>Division rounded to nearest, ties to even, and the nearest 53-bit floating-point number of a non-negative
  integer.\<close>

definition round_div :: "int \<Rightarrow> int \<Rightarrow> int" where
  "round_div a b =
     (let q = a div b; r = a mod b in
      if 2 * r > b \<or> 2 * r = b \<and> odd q then q + 1 else q)"

fun float_scale :: "nat \<Rightarrow> int \<Rightarrow> int" where
  "float_scale 0 b = 1"
| "float_scale (Suc k) b = (if b < 2 ^ 53 then 1 else 2 * float_scale k (b div 2))"

definition float64 :: "int \<Rightarrow> int" where
  "float64 b = (let s = float_scale 64 b in round_div b s * s)"

text \<open>\<open>%.1f\<close> of a quotient whose divisor is a power of two, which floating-point division computes exactly.\<close>

definition fixed1 :: "int \<Rightarrow> int \<Rightarrow> string" where
  "fixed1 a b = (let t = nat (round_div (10 * a) b) in show_nat (t div 10) @ ''.'' @ show_nat (t mod 10))"

text \<open>The loop of \<open>ByteCountIEC\<close>: the divisor and the exponent.\<close>

function byteCount_loop :: "int \<Rightarrow> int \<Rightarrow> nat \<Rightarrow> int \<times> nat" where
  "byteCount_loop n d e = (if n \<ge> 1024 then byteCount_loop (n div 1024) (wrap64 (d * 1024)) (e + 1) else (d, e))"
  by pat_completeness auto
termination
  by (relation "measure (\<lambda>(n, d, e). nat n)") auto

declare byteCount_loop.simps [simp del]

definition ByteCountIEC :: "int \<Rightarrow> string outcome" where
  "ByteCountIEC b =
     (if b < 1024 then Ret (show_int b @ '' B'')
      else
        (let (d, e) = byteCount_loop (b div 1024) 1024 0 in
         if e < length ''KMGTPE'' then Ret (fixed1 (float64 b) d @ '' '' @ [''KMGTPE'' ! e] @ ''iB'') else Panic))"

lemma kilo_steps:
  fixes i :: nat and n :: int
  shows "1024 ^ i \<le> n div 1024 \<Longrightarrow> 1024 ^ Suc i \<le> n" and "n div 1024 < 1024 ^ i \<Longrightarrow> n < 1024 ^ Suc i"
proof -
  show "1024 ^ i \<le> n div 1024 \<Longrightarrow> 1024 ^ Suc i \<le> n" by simp
  show "n div 1024 < 1024 ^ i \<Longrightarrow> n < 1024 ^ Suc i" by (simp add: div_less_iff_less_mult)
qed

lemma byteCount_loop_spec:
  assumes "0 \<le> n" "n < 1024 ^ k" "k + e \<le> 6" "d = 1024 ^ (e + 1)"
  shows "\<exists>j. byteCount_loop n d e = (1024 ^ (j + 1), j) \<and> e \<le> j \<and> j \<le> max e (k + e - 1) \<and>
    (n < 1024 \<and> j = e \<or> 1024 ^ (j - e) \<le> n \<and> n < 1024 ^ (j - e + 1))"
  using assms
proof (induction n d e arbitrary: k rule: byteCount_loop.induct)
  case (1 n d e)
  show ?case
  proof (cases "n \<ge> 1024")
    case False
    then show ?thesis using 1 by (subst byteCount_loop.simps) auto
  next
    case True
    then obtain k' where k: "k = Suc k'" "1 \<le> k'" using 1(3) by (cases k; cases "k - 1") auto
    have "(1024 :: int) ^ (e + 2) \<le> 1024 ^ 6" using 1(4) k by (intro power_increasing) auto
    also have "\<dots> < 2 ^ 63" by simp
    finally have d: "wrap64 (d * 1024) = 1024 ^ (e + 1 + 1)"
      unfolding 1(5) by (subst wrap64_id) (auto simp: int64_def intro: order_trans [of _ 0])
    have "n div 1024 < 1024 ^ k'" using 1(3) k by (simp add: div_less_iff_less_mult mult.commute)
    then obtain j where j: "byteCount_loop (n div 1024) (wrap64 (d * 1024)) (e + 1) = (1024 ^ (j + 1), j)"
      "e + 1 \<le> j" "j \<le> max (e + 1) (k' + (e + 1) - 1)"
      "n div 1024 < 1024 \<and> j = e + 1 \<or> 1024 ^ (j - (e + 1)) \<le> n div 1024 \<and> n div 1024 < 1024 ^ (j - (e + 1) + 1)"
      using 1(1) [OF True, of k'] 1(2,4) k d pos_imp_zdiv_nonneg_iff [of 1024 n] by auto
    note * = kilo_steps [where n = n]
    have je: "j - e = Suc (j - (e + 1))" using j(2) by simp
    have "1024 ^ (j - e) \<le> n \<and> n < 1024 ^ (j - e + 1)"
      using j(4) * [of "j - (e + 1)"] *(2) [of "j - (e + 1) + 1"] *(2) [of 1] True je by auto
    with j k show ?thesis using True by (subst byteCount_loop.simps) auto
  qed
qed

text \<open>
  C31. Byte counts. For every 64-bit count the function returns: the index into the unit letters is in range and the
  divisor does not overflow. From 1024 on the letter is that of the largest unit not above the count:
  the divisor \<open>d\<close> is the power of 1024 of that letter and the count lies between \<open>d\<close> and \<open>1024 * d\<close>.
\<close>
theorem ByteCountIEC_unit:
  assumes "int64 b" "1024 \<le> b"
  shows "\<exists>e. e < 6 \<and> ByteCountIEC b = Ret (fixed1 (float64 b) (1024 ^ (e + 1)) @ '' '' @ [''KMGTPE'' ! e] @ ''iB'') \<and>
    1024 ^ (e + 1) \<le> b \<and> b < 1024 ^ (e + 2)"
proof -
  have n: "0 \<le> b div 1024" "b div 1024 < 1024 ^ 6" "1 \<le> b div 1024"
    using assms by (auto simp: int64_def)
  then obtain e where e: "byteCount_loop (b div 1024) 1024 0 = (1024 ^ (e + 1), e)" "e \<le> 5"
    "b div 1024 < 1024 \<and> e = 0 \<or> 1024 ^ e \<le> b div 1024 \<and> b div 1024 < 1024 ^ (e + 1)"
    using byteCount_loop_spec [of "b div 1024" 6 0 1024] by auto
  then have "1024 ^ e \<le> b div 1024 \<and> b div 1024 < 1024 ^ (e + 1)" using n(3) by auto
  then have "1024 ^ (e + 1) \<le> b \<and> b < 1024 ^ (e + 2)"
    using kilo_steps [where n = b and i = e] kilo_steps(2) [where n = b and i = "e + 1"] by simp
  with e assms(2) show ?thesis by (intro exI [of _ e]) (simp add: ByteCountIEC_def)
qed

theorem ByteCountIEC_unit_witness:
  "ByteCountIEC 1536 = Ret ''1.5 KiB'' \<and> (\<exists>e. e < 6 \<and> ByteCountIEC 1536 = Ret (fixed1 (float64 1536) (1024 ^ (e + 1)) @ '' '' @ [''KMGTPE'' ! e] @ ''iB''))"
proof -
  have "ByteCountIEC 1536 = Ret ''1.5 KiB''" by code_simp
  moreover have "int64 1536" by (simp add: int64_def)
  ultimately show ?thesis using ByteCountIEC_unit [of 1536] by auto
qed

lemma ByteCountIEC_total: "int64 b \<Longrightarrow> \<exists>s. ByteCountIEC b = Ret s"
proof (cases "1024 \<le> b")
  case True
  assume "int64 b"
  then have n: "0 \<le> b div 1024" "b div 1024 < 1024 ^ 6" using True by (auto simp: int64_def)
  show ?thesis
    using byteCount_loop_spec [OF n, of 0 1024] by (auto simp: ByteCountIEC_def)
qed (simp add: ByteCountIEC_def)

section \<open>Counting bodies\<close>

text \<open>A request body as the bytes still to be read; a read fills its buffer as far as there are bytes.\<close>

record ReadCloserCounter =
  rcc_ReadCloser :: string
  rcc_count :: int

definition NewReadCloserCounter :: "string \<Rightarrow> ReadCloserCounter" where
  "NewReadCloserCounter r = \<lparr>rcc_ReadCloser = r, rcc_count = 0\<rparr>"

definition ReadCloserCounter_Read :: "nat \<Rightarrow> ReadCloserCounter \<Rightarrow> string \<times> ReadCloserCounter" where
  "ReadCloserCounter_Read n c =
     (let buf = take n (rcc_ReadCloser c) in
      (buf, \<lparr>rcc_ReadCloser = drop n (rcc_ReadCloser c), rcc_count = wrap64 (rcc_count c + int (length buf))\<rparr>))"

definition ReadCloserCounter_Count :: "ReadCloserCounter \<Rightarrow> int" where
  "ReadCloserCounter_Count c = rcc_count c"

record ResponseWriterCounter =
  rwc_ResponseWriter :: Response
  rwc_count :: int

definition NewResponseWriterCounter :: "Response \<Rightarrow> ResponseWriterCounter" where
  "NewResponseWriterCounter w = \<lparr>rwc_ResponseWriter = w, rwc_count = 0\<rparr>"

definition ResponseWriterCounter_Write :: "string \<Rightarrow> ResponseWriterCounter \<Rightarrow> ResponseWriterCounter" where
  "ResponseWriterCounter_Write buf c =
     \<lparr>rwc_ResponseWriter = Write (rwc_ResponseWriter c) buf, rwc_count = wrap64 (rwc_count c + int (length buf))\<rparr>"

text \<open>\<open>ReadFrom\<close> copies everything the reader returns, piece by piece, and counts once.\<close>

definition ResponseWriterCounter_ReadFrom :: "string list \<Rightarrow> ResponseWriterCounter \<Rightarrow> ResponseWriterCounter" where
  "ResponseWriterCounter_ReadFrom ps c =
     \<lparr>rwc_ResponseWriter = fold (\<lambda>p w. Write w p) ps (rwc_ResponseWriter c),
      rwc_count = wrap64 (rwc_count c + int (length (concat ps)))\<rparr>"

definition ResponseWriterCounter_Header :: "(Header \<Rightarrow> Header) \<Rightarrow> ResponseWriterCounter \<Rightarrow> ResponseWriterCounter" where
  "ResponseWriterCounter_Header f c =
     c\<lparr>rwc_ResponseWriter := (rwc_ResponseWriter c)\<lparr>w_Header := f (w_Header (rwc_ResponseWriter c))\<rparr>\<rparr>"

definition ResponseWriterCounter_WriteHeader :: "nat \<Rightarrow> ResponseWriterCounter \<Rightarrow> ResponseWriterCounter" where
  "ResponseWriterCounter_WriteHeader statusCode c =
     c\<lparr>rwc_ResponseWriter := WriteHeader (rwc_ResponseWriter c) statusCode\<rparr>"

definition ResponseWriterCounter_Count :: "ResponseWriterCounter \<Rightarrow> int" where
  "ResponseWriterCounter_Count c = rwc_count c"

text \<open>What a handler can do to a response writer, on the plain one and on the counting one.\<close>

datatype writer_op = OpHeader "Header \<Rightarrow> Header" | OpWriteHeader nat | OpWrite string | OpReadFrom "string list"

fun plain_exec :: "writer_op \<Rightarrow> Response \<Rightarrow> Response" where
  "plain_exec (OpHeader f) w = w\<lparr>w_Header := f (w_Header w)\<rparr>"
| "plain_exec (OpWriteHeader code) w = WriteHeader w code"
| "plain_exec (OpWrite buf) w = Write w buf"
| "plain_exec (OpReadFrom ps) w = fold (\<lambda>p w. Write w p) ps w"

fun counter_exec :: "writer_op \<Rightarrow> ResponseWriterCounter \<Rightarrow> ResponseWriterCounter" where
  "counter_exec (OpHeader f) c = ResponseWriterCounter_Header f c"
| "counter_exec (OpWriteHeader code) c = ResponseWriterCounter_WriteHeader code c"
| "counter_exec (OpWrite buf) c = ResponseWriterCounter_Write buf c"
| "counter_exec (OpReadFrom ps) c = ResponseWriterCounter_ReadFrom ps c"

declare ResponseWriterCounter_Header_def [counter_defs] ResponseWriterCounter_WriteHeader_def [counter_defs]
  ResponseWriterCounter_Write_def [counter_defs] ResponseWriterCounter_ReadFrom_def [counter_defs]

lemma w_Body_Write [body_simps]: "w_Body (Write w p) = w_Body w @ p"
  by (simp add: Write_def WriteHeader_def Let_def)

lemma w_Body_Writes [body_simps]: "w_Body (fold (\<lambda>p w. Write w p) ps w) = w_Body w @ concat ps"
  by (induction ps arbitrary: w) (simp_all add: w_Body_Write)

lemma w_Body_WriteHeader [body_simps]: "w_Body (WriteHeader w code) = w_Body w"
  by (simp add: WriteHeader_def)

lemma plain_exec_grows: "length (w_Body w) \<le> length (w_Body (plain_exec x w))"
  by (cases x) (simp_all add: body_simps)

text \<open>
  A response writer around another one, as the code stacks them: each method does to the writer inside what the plain
  writer's method does. Then so does every handler, whatever it does to the writer.
\<close>

locale response_writer =
  fixes header :: "(Header \<Rightarrow> Header) \<Rightarrow> 'w \<Rightarrow> 'w"
    and write_header :: "nat \<Rightarrow> 'w \<Rightarrow> 'w"
    and write_bytes :: "string \<Rightarrow> 'w \<Rightarrow> 'w"
    and read_from :: "string list \<Rightarrow> 'w \<Rightarrow> 'w"
    and inner :: "'w \<Rightarrow> Response"
  assumes inner_header: "inner (header f w) = (inner w)\<lparr>w_Header := f (w_Header (inner w))\<rparr>"
    and inner_write_header: "inner (write_header code w) = WriteHeader (inner w) code"
    and inner_write_bytes: "inner (write_bytes buf w) = Write (inner w) buf"
    and inner_read_from: "inner (read_from ps w) = fold (\<lambda>p w. Write w p) ps (inner w)"
begin

fun exec :: "writer_op \<Rightarrow> 'w \<Rightarrow> 'w" where
  "exec (OpHeader f) w = header f w"
| "exec (OpWriteHeader code) w = write_header code w"
| "exec (OpWrite buf) w = write_bytes buf w"
| "exec (OpReadFrom ps) w = read_from ps w"

lemma inner_exec: "inner (exec x w) = plain_exec x (inner w)"
  by (cases x) (simp_all add: inner_header inner_write_header inner_write_bytes inner_read_from)

lemma transparent: "inner (fold exec xs w) = fold plain_exec xs (inner w)"
  by (induction xs arbitrary: w) (simp_all add: inner_exec)

end

interpretation counting: response_writer ResponseWriterCounter_Header ResponseWriterCounter_WriteHeader
    ResponseWriterCounter_Write ResponseWriterCounter_ReadFrom rwc_ResponseWriter
  by unfold_locales (simp_all add: counter_defs)

lemma counter_exec_exec: "counter_exec = counting.exec"
proof (intro ext)
  fix x c
  show "counter_exec x c = counting.exec x c" by (cases x) simp_all
qed

lemma counter_exec_count:
  "rwc_count c = wrap64 k \<Longrightarrow> rwc_count (counter_exec x c) =
     wrap64 (k + int (length (w_Body (plain_exec x (rwc_ResponseWriter c)))) - int (length (w_Body (rwc_ResponseWriter c))))"
  by (cases x; simp add: counter_defs body_simps wrap64_add)

text \<open>The count is the growth of the body.\<close>

lemma counter_grows:
  assumes "rwc_count c = wrap64 (int (length (w_Body (rwc_ResponseWriter c))) - k)"
  shows "rwc_count (fold counter_exec xs c) = wrap64 (int (length (w_Body (fold plain_exec xs (rwc_ResponseWriter c)))) - k)"
  using assms
proof (induction xs arbitrary: c)
  case Nil
  then show ?case by simp
next
  case (Cons x xs)
  have inner: "rwc_ResponseWriter (counter_exec x c) = plain_exec x (rwc_ResponseWriter c)"
    by (simp add: counter_exec_exec counting.inner_exec)
  have "rwc_count (counter_exec x c) = wrap64 (int (length (w_Body (rwc_ResponseWriter (counter_exec x c)))) - k)"
    using counter_exec_count [OF Cons.prems, of x] by (simp add: inner algebra_simps)
  from Cons.IH [OF this] show ?case by (simp add: inner)
qed

text \<open>
  C32. The counting response writer is transparent and exact. For any sequence of operations the response is the one the
  plain writer would have produced, and the count is the number of body bytes written (as long as
  it fits 63 bits).
\<close>
theorem ResponseWriterCounter_exact:
  assumes "length (w_Body (fold plain_exec xs w)) < 2 ^ 63"
  shows "rwc_ResponseWriter (fold counter_exec xs (NewResponseWriterCounter w)) = fold plain_exec xs w \<and>
    ResponseWriterCounter_Count (fold counter_exec xs (NewResponseWriterCounter w)) =
      int (length (w_Body (fold plain_exec xs w))) - int (length (w_Body w))"
proof -
  have "rwc_count (NewResponseWriterCounter w) = wrap64 (int (length (w_Body (rwc_ResponseWriter (NewResponseWriterCounter w)))) - int (length (w_Body w)))"
    by (simp add: NewResponseWriterCounter_def wrap64_def)
  note sim = counter_grows [OF this, of xs] counting.transparent [folded counter_exec_exec, of xs]
  have grow: "length (w_Body w) \<le> length (w_Body (fold plain_exec xs w))"
    by (induction xs arbitrary: w) (auto intro: order_trans [OF plain_exec_grows])
  have "int64 (int (length (w_Body (fold plain_exec xs w))) - int (length (w_Body w)))"
    using assms grow unfolding int64_def by simp
  with sim show ?thesis
    by (simp add: ResponseWriterCounter_Count_def wrap64_id NewResponseWriterCounter_def)
qed

theorem ResponseWriterCounter_exact_witness:
  "ResponseWriterCounter_Count (fold counter_exec [OpWriteHeader 404, OpWrite ''ab'', OpReadFrom [''c'', ''de'']]
     (NewResponseWriterCounter Response_zero)) = 5"
proof -
  have "w_Body (fold plain_exec [OpWriteHeader 404, OpWrite ''ab'', OpReadFrom [''c'', ''de'']] Response_zero) = ''abcde''"
    by (simp add: body_simps Response_zero_def)
  then show ?thesis
    using ResponseWriterCounter_exact [of "[OpWriteHeader 404, OpWrite ''ab'', OpReadFrom [''c'', ''de'']]" Response_zero]
    by (simp add: Response_zero_def)
qed

end
