(* ===== verification/FileTemplate.thy ===== *)
theory FileTemplate
  imports GoURL GoPath
begin

text \<open>
  The page of a directory listing, the template \<open>fsTemplate\<close> of \<open>src/pkg/fileserver/fileserver.go\<close>, with the escaping that
  \<open>html/template\<close> inserts: text is escaped for HTML, the value of \<open>href\<close> is filtered and normalized as
  a URL and then escaped for an attribute, and the icon is of type \<open>template.HTML\<close> and left as it is.
\<close>

record fsEntry =
  Icon :: string
  Name :: string
  FullName :: string
  Size :: string
  Modified :: string
  Created :: string

section \<open>Escaping\<close>

definition html_replace1 :: "char \<Rightarrow> string" where
  "html_replace1 c =
     (if c = CHR 0x00 then [CHR 0xEF, CHR 0xBF, CHR 0xBD]
      else if c = CHR 0x22 then ''&#34;''
      else if c = CHR ''&'' then ''&amp;''
      else if c = CHR 0x27 then ''&#39;''
      else if c = CHR ''+'' then ''&#43;''
      else if c = CHR ''<'' then ''&lt;''
      else if c = CHR ''>'' then ''&gt;''
      else [c])"

definition htmlescaper :: "string \<Rightarrow> string" where
  "htmlescaper s = concat (map html_replace1 s)"

text \<open>\<open>strings.EqualFold\<close> with a lower-case word: the long s folds to s.\<close>

fun fold_long_s :: "string \<Rightarrow> string" where
  "fold_long_s (a # b # s) =
     (if a = CHR 0xC5 \<and> b = CHR 0xBF then CHR ''s'' # fold_long_s s else a # fold_long_s (b # s))"
| "fold_long_s s = s"

definition isSafeURL :: "string \<Rightarrow> bool" where
  "isSafeURL s =
     (let protocol = takeWhile (\<lambda>c. c \<noteq> CHR '':'') s in
      if CHR '':'' \<in> set s \<and> CHR ''/'' \<notin> set protocol
      then map ToLower1 (fold_long_s protocol) \<in> {''http'', ''https'', ''mailto''}
      else True)"

definition urlfilter :: "string \<Rightarrow> string" where
  "urlfilter s = (if isSafeURL s then s else ''#ZgotmplZ'')"

definition lowerhex :: string where
  "lowerhex = ''0123456789abcdef''"

definition url_keeps :: "char \<Rightarrow> string \<Rightarrow> bool" where
  "url_keeps c s \<longleftrightarrow>
     lower_letter c \<or> upper_letter c \<or> digit c \<or> c \<in> set ''!#$&*+,/:;=?@[]-._~'' \<or>
     (c = CHR 0x25 \<and> (case s of a # b # _ \<Rightarrow> ishex a \<and> ishex b | _ \<Rightarrow> False))"

fun urlnormalizer :: "string \<Rightarrow> string" where
  "urlnormalizer [] = []"
| "urlnormalizer (c # s) =
     (if url_keeps c s then [c] else [CHR 0x25, lowerhex ! (of_char c div 16), lowerhex ! (of_char c mod 16)]) @ urlnormalizer s"

definition href :: "string \<Rightarrow> string" where
  "href s = htmlescaper (urlnormalizer (urlfilter s))"

section \<open>The template\<close>

text \<open>A line indented by tabs.\<close>

definition ln :: "nat \<Rightarrow> string \<Rightarrow> string" where
  "ln tabs s = replicate tabs (CHR 0x09) @ s @ [CHR 0x0A]"

definition fsTemplate_head :: string where
  \<open>fsTemplate_head = CHR 0x0A # concat
     [ln 0 ''<style type="text/css" scoped>'',
      ln 0 ''a {'', ln 1 ''color: black;'', ln 1 ''text-decoration: underline;'',
      ln 1 ''text-decoration-color: rgb(220, 53, 69);'', ln 1 ''-webkit-text-decoration-color: rgb(220, 53, 69);'', ln 0 ''}'',
      ln 0 ''a:hover {'', ln 1 ''color: dimgrey;'', ln 0 ''}'',
      ln 0 ''table {'', ln 1 ''border-collapse: collapse;'', ln 1 ''margin-bottom: 1rem;'', ln 1 ''border-spacing: 0;'', ln 0 ''}'',
      ln 0 ''td {'', ln 1 ''padding: 10px;'', ln 1 ''border: 1px solid transparent;'', ln 0 ''}'',
      ln 0 ''tr:nth-child(odd) > td {'', ln 1 ''background-color: #F0F0F0;'', ln 0 ''}'',
      ln 0 ''tr:first-child > td {'', ln 1 ''font-weight: bold;'', ln 1 ''border-bottom: 1px solid black;'',
      ln 1 ''background-color: white;'', ln 0 ''}'',
      ln 0 ''tr:not(:first-child):hover > td {'', ln 1 ''background-color: lightsteelblue;'', ln 0 ''}'',
      ln 0 ''</style>'',
      ln 0 ''<table>'', ln 1 ''<tr>'',
      ln 2 ''<td>Name</td>'', ln 2 ''<td>Size</td>'', ln 2 ''<td>Modified</td>'', ln 2 ''<td>Created</td>'',
      ln 1 ''</tr>''] @ [CHR 0x09]\<close>

text \<open>The row of an entry; what follows \<open>range\<close> and what precedes \<open>else\<close> is part of it.\<close>

definition cell_sep :: string where
  "cell_sep = ''</td>'' @ [CHR 0x0A] @ replicate 2 (CHR 0x09) @ ''<td>''"

definition row_open :: string where
  "row_open = CHR 0x0A # ln 1 ''<tr>'' @ replicate 2 (CHR 0x09)"

definition row_close :: string where
  "row_close = [CHR 0x0A] @ ln 1 ''</tr>'' @ [CHR 0x09]"

definition fsTemplate_row :: "fsEntry \<Rightarrow> string list" where
  \<open>fsTemplate_row e =
     [row_open @ ''<td>'', Icon e, '' <a href="'', href (FullName e), ''">'', htmlescaper (Name e),
      ''</a>'' @ cell_sep, htmlescaper (Size e), cell_sep, htmlescaper (Modified e), cell_sep, htmlescaper (Created e),
      ''</td>'' @ row_close]\<close>

definition fsTemplate :: "fsEntry list \<Rightarrow> string list" where
  \<open>fsTemplate entries =
     [fsTemplate_head] @
     (if entries = [] then [row_open @ ''<td colspan="4">Empty</td>'' @ row_close]
      else concat (map fsTemplate_row entries)) @
     [CHR 0x0A # ln 0 ''</table>'']\<close>

section \<open>No markup from file names\<close>

definition markup :: "char \<Rightarrow> bool" where
  "markup c \<longleftrightarrow> c \<in> {CHR ''<'', CHR ''>'', CHR 0x22, CHR 0x27}"

lemma markup_htmlescaper [simp]: "filter markup (htmlescaper s) = []"
proof -
  have "filter markup (html_replace1 c) = []" for c
    by (auto simp: html_replace1_def markup_def)
  then show ?thesis by (induction s) (simp_all add: htmlescaper_def)
qed

lemma markup_href [simp]: "filter markup (href s) = []"
  by (simp add: href_def)

definition blank :: "fsEntry \<Rightarrow> fsEntry" where
  "blank e = e\<lparr>Name := [], FullName := [], Size := [], Modified := [], Created := []\<rparr>"

lemma markup_row: "filter markup (concat (fsTemplate_row e)) = filter markup (concat (fsTemplate_row (blank e)))"
  by (simp add: fsTemplate_row_def blank_def)

text \<open>
  C30. The markup of a listing does not depend on what the files are called. Brackets and quotes appear in the page
  exactly as in that of a directory with as many entries of the same kinds and empty names, sizes and dates: no file
  name can open a tag, close one or leave an attribute.
\<close>

theorem listing_markup_is_fixed:
  "filter markup (concat (fsTemplate es)) = filter markup (concat (fsTemplate (map blank es)))"
proof -
  have rows: "filter markup (concat (concat (map fsTemplate_row es))) =
      filter markup (concat (concat (map fsTemplate_row (map blank es))))" for es
  proof (induction es)
    case (Cons e es)
    with markup_row [of e] show ?case by (simp only: list.map concat.simps concat_append filter_append)
  qed simp
  show ?thesis
  proof (cases "es = []")
    case False
    then show ?thesis
      unfolding fsTemplate_def by (simp only: map_is_Nil_conv if_False concat_append filter_append rows [of es])
  qed simp
qed

section \<open>Links\<close>

lemma lowerhex_nth:
  assumes "n < 16"
  shows "ishex (lowerhex ! n)" "unhex (lowerhex ! n) = n" "path_char (lowerhex ! n)"
proof -
  have "list_all (\<lambda>n. ishex (lowerhex ! n) \<and> unhex (lowerhex ! n) = n \<and> path_char (lowerhex ! n)) [0..<16]" by code_simp
  with assms show "ishex (lowerhex ! n)" "unhex (lowerhex ! n) = n" "path_char (lowerhex ! n)"
    by (simp_all add: list_all_iff)
qed

lemma unescape_urlnormalizer: "CHR 0x25 \<notin> set s \<Longrightarrow> unescape (urlnormalizer s) encodePath = Inr s"
proof (induction s)
  case (Cons c s)
  then have c: "c \<noteq> CHR 0x25" and IH: "unescape (urlnormalizer s) encodePath = Inr s" by auto
  have hex: "ishex (lowerhex ! (of_char c div 16))" "unhex (lowerhex ! (of_char c div 16)) = of_char c div 16"
    "ishex (lowerhex ! (of_char c mod 16))" "unhex (lowerhex ! (of_char c mod 16)) = of_char c mod 16"
    using lowerhex_nth [OF of_char_div16 [of c]] lowerhex_nth [of "of_char c mod 16"] by simp_all
  show ?case
  proof (cases "url_keeps c s")
    case True
    then show ?thesis using c IH by simp
  next
    case False
    then show ?thesis using IH hex by (simp add: byte_hex)
  qed
qed simp

lemma url_keeps_path_char:
  assumes "url_keeps c s" "c \<notin> set ''?#''"
  shows "path_char c"
proof -
  have kept: "list_all (\<lambda>c. path_char c \<or> c \<in> set ''?#'') ''!#$&*+,/:;=?@[]-._~''" "path_char (CHR 0x25)" by code_simp+
  then have "c \<in> set ''!#$&*+,/:;=?@[]-._~'' \<Longrightarrow> path_char c" using assms(2) unfolding list_all_iff by blast
  with assms(1) kept(2) letter_path_char [of c] show ?thesis unfolding url_keeps_def by blast
qed

lemma urlnormalizer_path_chars: "\<forall>c \<in> set s. c \<notin> set ''?#'' \<Longrightarrow> list_all path_char (urlnormalizer s)"
proof (induction s)
  case (Cons c s)
  moreover have "path_char (CHR 0x25)" by code_simp
  ultimately show ?case
    using url_keeps_path_char [of c s] lowerhex_nth(3) [OF of_char_div16 [of c]] lowerhex_nth(3) [of "of_char c mod 16"]
    by (cases "url_keeps c s") simp_all
qed simp

lemma url_keeps_slash [simp]: "url_keeps (CHR ''/'') s"
  by (simp add: url_keeps_def)

end
