(* ===== verification/FileServer.thy ===== *)
theory FileServer
  imports Handlers Util FileTemplate "HOL-Library.List_Lexorder" "HOL-Library.Char_ord"
begin

text \<open>
  The file server, \<open>src/pkg/fileserver/fileserver.go\<close>: the resolution of a request path below a root directory with its check of
  symbolic links, the listing of a directory, and the handler. The disk answers \<open>Lstat\<close> (whether a path is a symbolic
  link), \<open>Readlink\<close> and \<open>Open\<close>; the quoting of a file name and \<open>http.ServeContent\<close>
  are parameters.
\<close>

section \<open>Files and directories\<close>

text \<open>A file info holds its times as they are printed; \<open>fi_Sys\<close> is the time recorded by the operating system, for files
  that come from it (the inode's change time, or the creation time on Windows).\<close>

record FileInfo =
  fi_Name :: string
  fi_Size :: "64 word"
  fi_IsDir :: bool
  fi_Modified :: string
  fi_Sys :: "string option"

record File =
  f_Stat :: "string + FileInfo"
  f_Seek :: "string option"
  f_Content :: "string list"
  f_Readdir :: "string + FileInfo list"

record Disk =
  d_Lstat :: "string \<Rightarrow> string + bool"
  d_Readlink :: "string \<Rightarrow> string + string"
  d_Open :: "string \<Rightarrow> string + File"

datatype fs_error =
    ErrOutsideRoot
  | ErrSymlinkMaxDepth
  | DiskError string
  | FailedToOpen string

section \<open>Resolving a path\<close>

definition resolvedPath :: "string \<Rightarrow> string \<Rightarrow> string" where
  "resolvedPath absRoot filename =
     (let p = TrimPrefix filename absRoot in
      if length p = 0 then ''.'' else if p ! 0 = CHR ''/'' then drop 1 p else p)"

function resolve_loop :: "Disk \<Rightarrow> string \<Rightarrow> nat \<Rightarrow> string \<Rightarrow> fs_error + string" where
  "resolve_loop disk absRoot depth filename =
     (case d_Lstat disk filename of
        Inl err \<Rightarrow> Inl (DiskError err)
      | Inr symlink \<Rightarrow>
         if \<not> symlink then
           (if \<not> HasPrefix filename absRoot then Inl ErrOutsideRoot else Inr (resolvedPath absRoot filename))
         else
           (case d_Readlink disk filename of
              Inl err \<Rightarrow> Inl (DiskError err)
            | Inr filename' \<Rightarrow>
               if depth + 1 > 16 then Inl ErrSymlinkMaxDepth
               else resolve_loop disk absRoot (depth + 1) filename'))"
  by pat_completeness auto
termination
  by (relation "measure (\<lambda>(disk, absRoot, depth, filename). 17 - depth)") auto

declare resolve_loop.simps [simp del]

definition Directory_resolve :: "OS \<Rightarrow> Disk \<Rightarrow> string \<Rightarrow> string \<Rightarrow> fs_error + string" where
  "Directory_resolve os disk root relPath =
     (case Abs os (if root = [] then ''.'' else root) of
        Inl err \<Rightarrow> Inl (DiskError err)
      | Inr absRoot \<Rightarrow> resolve_loop disk absRoot 0 (path_Join [absRoot, relPath]))"

text \<open>\<open>http.Dir.Open\<close>: the name is made absolute and cleaned before it is joined to the directory.\<close>

definition Dir_Open :: "Disk \<Rightarrow> string \<Rightarrow> string \<Rightarrow> string + File" where
  "Dir_Open disk root name =
     d_Open disk (path_Join [if root = [] then ''.'' else root, Clean (CHR ''/'' # name)])"

definition Directory_Open :: "OS \<Rightarrow> Disk \<Rightarrow> string \<Rightarrow> string \<Rightarrow> fs_error + File" where
  "Directory_Open os disk root relPath =
     (case Directory_resolve os disk root relPath of
        Inl err \<Rightarrow> Inl err
      | Inr filename \<Rightarrow>
         (case Dir_Open disk root filename of
            Inl err \<Rightarrow> Inl (FailedToOpen relPath)
          | Inr file \<Rightarrow> Inr file))"

definition fs_error_text :: "fs_error \<Rightarrow> string" where
  "fs_error_text e =
     (case e of
        ErrOutsideRoot \<Rightarrow> ''File points outside of the root directory''
      | ErrSymlinkMaxDepth \<Rightarrow> ''Symlink max depth exceeded''
      | DiskError err \<Rightarrow> err
      | FailedToOpen relPath \<Rightarrow> ''Failed to open: '' @ relPath)"

section \<open>Listing a directory\<close>

definition getCreationTime :: "FileInfo \<Rightarrow> string" where
  "getCreationTime fi = (case fi_Sys fi of Some t \<Rightarrow> t | None \<Rightarrow> fi_Modified fi)"

definition newFsEntry :: "FileInfo \<Rightarrow> string \<Rightarrow> fsEntry outcome" where
  "newFsEntry fi pre =
     bind_outcome (ByteCountIEC (sint (fi_Size fi))) (\<lambda>size.
       Ret \<lparr>Icon = (if fi_IsDir fi then ''&#128194;'' else ''&#128196;''), Name = fi_Name fi,
            FullName = path_Join [pre, fi_Name fi], Size = size, Modified = fi_Modified fi, Created = getCreationTime fi\<rparr>)"

fun newFsEntries :: "FileInfo list \<Rightarrow> string \<Rightarrow> fsEntry list outcome" where
  "newFsEntries [] uri = Ret []"
| "newFsEntries (fi # fis) uri =
     bind_outcome (newFsEntry fi uri) (\<lambda>e. bind_outcome (newFsEntries fis uri) (\<lambda>es. Ret (e # es)))"

text \<open>Two stable sorts: by name, then directories before files.\<close>

definition sortFiles :: "FileInfo list \<Rightarrow> FileInfo list" where
  "sortFiles files = sort_key (\<lambda>f. \<not> fi_IsDir f) (sort_key fi_Name files)"

definition dirEntries :: "FileInfo list \<Rightarrow> string \<Rightarrow> fsEntry list outcome" where
  "dirEntries files uri =
     bind_outcome (newFsEntries (sortFiles files) uri) (\<lambda>es.
       Ret ((if uri \<noteq> ''.'' \<and> uri \<noteq> ''/''
             then [\<lparr>Icon = ''&#128194;'', Name = ''..'', FullName = Dir uri, Size = [], Modified = [], Created = []\<rparr>]
             else []) @ es))"

definition handleDir :: "Header \<Rightarrow> File \<Rightarrow> string \<Rightarrow> Answer outcome" where
  "handleDir h dir uri =
     (case f_Readdir dir of
        Inl err \<Rightarrow> Ret (error_answer h err StatusInternalServerError)
      | Inr files \<Rightarrow>
          bind_outcome (dirEntries files uri) (\<lambda>entries.
            Ret \<lparr>an_Header = h, an_Status = None, an_Body = fsTemplate entries\<rparr>))"

section \<open>The handler\<close>

record FileServerEnv =
  fe_Quote :: "string \<Rightarrow> string"
  fe_ServeContent :: "File \<Rightarrow> FileInfo \<Rightarrow> Request \<Rightarrow> Header \<Rightarrow> Answer"

text \<open>A file that cannot be rewound is copied as an attachment, and then given to \<open>ServeContent\<close> as well: what that
  answers is appended to a body that has already been started.\<close>

definition FileServer_serve ::
  "FileServerEnv \<Rightarrow> (string \<Rightarrow> string + File) \<Rightarrow> Request \<Rightarrow> Header \<Rightarrow> Answer outcome" where
  "FileServer_serve env fsOpen r h =
     (let uri = Clean (Path (r_URL r)) in
      case fsOpen uri of
        Inl err \<Rightarrow> Ret (error_answer h err StatusNotFound)
      | Inr file \<Rightarrow>
         (case f_Stat file of
            Inl err \<Rightarrow> Ret (error_answer h err StatusInternalServerError)
          | Inr fi \<Rightarrow>
             if fi_IsDir fi then handleDir h file uri
             else
               (case f_Seek file of
                  None \<Rightarrow> Ret (fe_ServeContent env file fi r h)
                | Some err \<Rightarrow>
                   (let h1 = Header_Set h ''Content-Disposition'' (''attachment; filename='' @ fe_Quote env (fi_Name fi));
                        a = fe_ServeContent env file fi r h1
                    in Ret (if f_Content file = [] then a
                            else \<lparr>an_Header = h1, an_Status = None, an_Body = f_Content file @ an_Body a\<rparr>)))))"

section \<open>Resolution against a specification\<close>

text \<open>\<open>follows disk k f g\<close>: reading \<open>k\<close> symbolic links in a row leads from \<open>f\<close> to \<open>g\<close>.\<close>

inductive follows :: "Disk \<Rightarrow> nat \<Rightarrow> string \<Rightarrow> string \<Rightarrow> bool" for disk :: Disk where
  here: "follows disk 0 f f"
| link: "d_Lstat disk f = Inr True \<Longrightarrow> d_Readlink disk f = Inr f' \<Longrightarrow> follows disk k f' g \<Longrightarrow> follows disk (Suc k) f g"

inductive_cases follows_0E: "follows disk 0 f g"
inductive_cases follows_SucE: "follows disk (Suc k) f g"

lemma follows_iff:
  "follows disk 0 f g \<longleftrightarrow> g = f"
  "follows disk (Suc k) f g \<longleftrightarrow> d_Lstat disk f = Inr True \<and> (\<exists>f'. d_Readlink disk f = Inr f' \<and> follows disk k f' g)"
  by (auto intro: follows.intros elim: follows_0E follows_SucE)

lemma resolve_loop_file:
  "d_Lstat disk f = Inr False \<Longrightarrow>
   resolve_loop disk root d f = (if HasPrefix f root then Inr (resolvedPath root f) else Inl ErrOutsideRoot)"
  by (simp add: resolve_loop.simps)

lemma resolve_loop_link:
  "d_Lstat disk f = Inr True \<Longrightarrow> d_Readlink disk f = Inr f' \<Longrightarrow>
   resolve_loop disk root d f = (if 16 \<le> d then Inl ErrSymlinkMaxDepth else resolve_loop disk root (Suc d) f')"
  by (subst resolve_loop.simps) simp

lemma resolve_loop_nolink:
  assumes "d_Lstat disk f \<noteq> Inr True"
  shows "resolve_loop disk root d f = Inr p \<longleftrightarrow> d_Lstat disk f = Inr False \<and> HasPrefix f root \<and> p = resolvedPath root f"
  using assms by (subst resolve_loop.simps) (auto split: sum.splits)

lemma follows_nolink: "d_Lstat disk f \<noteq> Inr True \<Longrightarrow> follows disk k f g \<longleftrightarrow> k = 0 \<and> g = f"
  by (cases k) (auto simp: follows_iff)

text \<open>The files reached through a link are those reached from its target, with one link less to spare.\<close>

lemma follows_through_link:
  assumes link: "d_Lstat disk f = Inr True" "d_Readlink disk f = Inr f'"
  shows "(\<exists>k g. k + d \<le> n \<and> follows disk k f g \<and> d_Lstat disk g = Inr False \<and> R g) \<longleftrightarrow>
    (\<exists>k g. k + Suc d \<le> n \<and> follows disk k f' g \<and> d_Lstat disk g = Inr False \<and> R g)" (is "?L \<longleftrightarrow> ?R")
proof
  assume ?L
  then obtain k g where k: "k + d \<le> n" "follows disk k f g" "d_Lstat disk g = Inr False" "R g" by blast
  with link obtain k' where "k = Suc k'" "follows disk k' f' g" by (cases k) (auto simp: follows_iff)
  with k show ?R by (intro exI [of _ k'] exI [of _ g]) simp
next
  assume ?R
  then obtain k g where "k + Suc d \<le> n" "follows disk k f' g" "d_Lstat disk g = Inr False" "R g" by blast
  with link show ?L by (intro exI [of _ "Suc k"] exI [of _ g]) (simp add: follows_iff)
qed

lemma resolve_loop_spec:
  assumes "d \<le> 16"
  shows "resolve_loop disk root d f = Inr p \<longleftrightarrow>
    (\<exists>k g. k + d \<le> 16 \<and> follows disk k f g \<and> d_Lstat disk g = Inr False \<and> HasPrefix g root \<and> p = resolvedPath root g)"
  using assms
proof (induction "16 - d" arbitrary: d f)
  case 0
  then have d: "d = 16" by simp
  show ?case
  proof (cases "d_Lstat disk f = Inr True")
    case True
    then show ?thesis using d
      by (auto simp: resolve_loop.simps follows_iff split: sum.splits)
  next
    case False
    then show ?thesis using d by (auto simp: resolve_loop_nolink follows_nolink)
  qed
next
  case (Suc n)
  then have d: "Suc d \<le> 16" "n = 16 - Suc d" by simp_all
  note IH = Suc(1) [OF d(2) d(1)]
  show ?case
  proof (cases "d_Lstat disk f = Inr True")
    case False
    then show ?thesis using Suc(3) by (auto simp: resolve_loop_nolink follows_nolink)
  next
    case link: True
    show ?thesis
    proof (cases "d_Readlink disk f")
      case (Inl err)
      have "follows disk k f g \<and> d_Lstat disk g = Inr False \<longleftrightarrow> False" for k g
        using link Inl by (cases k) (auto simp: follows_iff)
      with link Inl show ?thesis by (simp add: resolve_loop.simps [of disk root d f]) blast
    next
      case (Inr f')
      have "resolve_loop disk root d f = resolve_loop disk root (Suc d) f'"
        using d(1) by (simp add: resolve_loop_link [OF link Inr])
      then show ?thesis
        using IH [of f'] by (simp only: follows_through_link [OF link Inr])
    qed
  qed
qed

lemma Directory_Open_split:
  assumes "root \<noteq> []" "Abs os root = Inr absRoot"
  shows "Directory_Open os disk root relPath =
    (case resolve_loop disk absRoot 0 (path_Join [absRoot, relPath]) of
       Inl err \<Rightarrow> Inl err
     | Inr filename \<Rightarrow> (case Dir_Open disk root filename of Inl err \<Rightarrow> Inl (FailedToOpen relPath) | Inr file \<Rightarrow> Inr file))"
  using assms by (simp add: Directory_Open_def Directory_resolve_def)

text \<open>
  C12. Which file a request opens: the code's loop with its depth counter is the relation \<open>follows\<close>. A file is opened
  exactly if at most sixteen symbolic links, read one after the other, lead from the joined path to something that is
  not a link and whose name starts with the root; every other request is an error.
\<close>

theorem Directory_Open_follows:
  assumes "root \<noteq> []" "Abs os root = Inr absRoot"
  shows "Directory_Open os disk root relPath = Inr file \<longleftrightarrow>
    (\<exists>k g. k \<le> 16 \<and> follows disk k (path_Join [absRoot, relPath]) g \<and> d_Lstat disk g = Inr False \<and> HasPrefix g absRoot
      \<and> Dir_Open disk root (resolvedPath absRoot g) = Inr file)"
proof -
  have "Directory_Open os disk root relPath = Inr file \<longleftrightarrow>
      (\<exists>f. resolve_loop disk absRoot 0 (path_Join [absRoot, relPath]) = Inr f \<and> Dir_Open disk root f = Inr file)"
    using assms by (simp add: Directory_Open_split split: sum.splits)
  then show ?thesis
    using resolve_loop_spec [of 0 disk absRoot "path_Join [absRoot, relPath]"] by auto
qed

definition example_file :: File where
  "example_file = \<lparr>f_Stat = Inr \<lparr>fi_Name = ''a'', fi_Size = 5, fi_IsDir = False, fi_Modified = [], fi_Sys = None\<rparr>,
     f_Seek = None, f_Content = [''hello''], f_Readdir = Inl ''not a directory''\<rparr>"

text \<open>A disk with the file \<open>/srv/www/a\<close> and a link \<open>/srv/www/l\<close> to it.\<close>

definition example_disk :: Disk where
  "example_disk =
     \<lparr>d_Lstat = (\<lambda>p. if p = ''/srv/www/a'' then Inr False else if p = ''/srv/www/l'' then Inr True else Inl ''no such file''),
      d_Readlink = (\<lambda>p. if p = ''/srv/www/l'' then Inr ''/srv/www/a'' else Inl ''invalid argument''),
      d_Open = (\<lambda>p. if p = ''/srv/www/a'' \<or> p = ''/srv/www/l'' then Inr example_file else Inl ''no such file'')\<rparr>"

theorem Directory_Open_follows_witness:
  "\<exists>k g. k \<le> 16 \<and> follows example_disk k ''/srv/www/l'' g \<and> d_Lstat example_disk g = Inr False"
proof -
  have "Abs empty_OS ''/srv/www'' = Inr ''/srv/www''" "path_Join [''/srv/www'', ''/l''] = ''/srv/www/l''" by code_simp+
  note follows = Directory_Open_follows [OF _ this(1), of example_disk "''/l''", unfolded this(2)]
  have "is_ok (Directory_Open empty_OS example_disk ''/srv/www'' ''/l'')" by code_simp
  then obtain f where "Directory_Open empty_OS example_disk ''/srv/www'' ''/l'' = Inr f"
    by (auto simp: is_ok_def split: sum.splits)
  then show ?thesis using follows by blast
qed

section \<open>Staying below the root\<close>

lemma Dir_Open_below:
  assumes "\<forall>s \<in> set rs. plain_seg s" "rs \<noteq> []"
  obtains us where "\<forall>s \<in> set us. plain_seg s"
    "Dir_Open disk (CHR ''/'' # Join rs ''/'') name = d_Open disk (CHR ''/'' # Join (rs @ us) ''/'')"
proof -
  obtain us where "Clean (CHR ''/'' # name) = CHR ''/'' # Join us ''/''" "\<forall>s \<in> set us. plain_seg s"
    using Clean_rooted [of "CHR ''/'' # name"] by (auto simp: rooted_def)
  with that assms show thesis by (simp add: Dir_Open_def path_Join_rooted)
qed

text \<open>
  The path the file is opened by: whatever is requested and whatever the links on the way say, the operating system
  is asked for a path made of the root followed by plain segments, none of them \<open>..\<close>.
\<close>

theorem Directory_Open_below_root:
  assumes "\<forall>s \<in> set rs. plain_seg s" "rs \<noteq> []"
    and "Directory_Open os disk (CHR ''/'' # Join rs ''/'') relPath = Inr file"
  shows "\<exists>us. (\<forall>s \<in> set us. plain_seg s) \<and> d_Open disk (CHR ''/'' # Join (rs @ us) ''/'') = Inr file"
proof -
  obtain name where "Dir_Open disk (CHR ''/'' # Join rs ''/'') name = Inr file"
    using assms(3) by (auto simp: Directory_Open_def split: sum.splits)
  then show ?thesis using Dir_Open_below [OF assms(1,2), of disk name] by metis
qed

theorem Directory_Open_below_root_witness:
  "\<exists>us file. (\<forall>s \<in> set us. plain_seg s) \<and> d_Open example_disk (CHR ''/'' # Join ([''srv'', ''www''] @ us) ''/'') = Inr file"
proof -
  have "is_ok (Directory_Open empty_OS example_disk (CHR ''/'' # Join [''srv'', ''www''] ''/'') ''/l'')" by code_simp
  then obtain f where "Directory_Open empty_OS example_disk (CHR ''/'' # Join [''srv'', ''www''] ''/'') ''/l'' = Inr f"
    by (auto simp: is_ok_def split: sum.splits)
  then show ?thesis
    using Directory_Open_below_root [of "[''srv'', ''www'']" empty_OS example_disk] by (fastforce simp: plain_seg_def)
qed

lemma root_path:
  assumes "rs \<noteq> []" "us \<noteq> []"
  shows "CHR ''/'' # Join (rs @ us) ''/'' = (CHR ''/'' # Join rs ''/'') @ ''/'' @ Join us ''/''"
  using assms by (simp add: Join_append)

lemma resolvedPath_root:
  assumes "rs \<noteq> []"
  shows "resolvedPath (CHR ''/'' # Join rs ''/'') (CHR ''/'' # Join (rs @ us) ''/'') = (if us = [] then ''.'' else Join us ''/'')"
proof (cases "us = []")
  case True
  then show ?thesis by (simp add: resolvedPath_def TrimPrefix_def HasPrefix_def)
next
  case False
  have "TrimPrefix (CHR ''/'' # Join (rs @ us) ''/'') (CHR ''/'' # Join rs ''/'') = ''/'' @ Join us ''/''"
    unfolding root_path [OF assms False] by (simp only: TrimPrefix_def HasPrefix_append if_True) simp
  with False show ?thesis by (simp add: resolvedPath_def)
qed

text \<open>A path below the root that is no link is opened under its own name.\<close>

lemma Directory_Open_file:
  assumes "\<forall>s \<in> set rs. plain_seg s" "rs \<noteq> []" "\<forall>s \<in> set us. plain_seg s"
    and "Abs os (CHR ''/'' # Join rs ''/'') = Inr (CHR ''/'' # Join rs ''/'')"
    and "d_Lstat disk (CHR ''/'' # Join (rs @ us) ''/'') = Inr False"
  shows "Directory_Open os disk (CHR ''/'' # Join rs ''/'') (CHR ''/'' # Join us ''/'') =
    (case d_Open disk (CHR ''/'' # Join (rs @ us) ''/'') of
       Inl err \<Rightarrow> Inl (FailedToOpen (CHR ''/'' # Join us ''/'')) | Inr file \<Rightarrow> Inr file)"
proof -
  have "HasPrefix (CHR ''/'' # Join (rs @ us) ''/'') (CHR ''/'' # Join rs ''/'')"
    using assms(2) by (cases "us = []") (simp_all add: HasPrefix_def Join_append)
  moreover have "Clean (CHR ''/'' # (if us = [] then ''.'' else Join us ''/'')) = CHR ''/'' # Join us ''/''"
    using Clean_plain [OF assms(3)] by (auto simp: Clean_def rooted_def)
  ultimately show ?thesis
    using assms by (simp add: Directory_Open_split path_Join_rooted resolve_loop_file resolvedPath_root Dir_Open_def)
qed

text \<open>
  A disk with one more symbolic link, from \<open>src\<close> to \<open>dst\<close>: \<open>Lstat\<close> and \<open>Readlink\<close> see the
  link at \<open>src\<close> itself, and the operating system follows it inside longer paths.
\<close>

definition with_link :: "Disk \<Rightarrow> string \<Rightarrow> string \<Rightarrow> Disk" where
  "with_link disk src dst =
     (let through = (\<lambda>p. if HasPrefix p (src @ ''/'') then dst @ drop (length src) p else p)
      in \<lparr>d_Lstat = (\<lambda>p. if p = src then Inr True else d_Lstat disk (through p)),
          d_Readlink = (\<lambda>p. if p = src then Inr dst else d_Readlink disk (through p)),
          d_Open = (\<lambda>p. if p = src then d_Open disk dst else d_Open disk (through p))\<rparr>)"

text \<open>
  C38. Only the last component of a path is checked. With a link in the root directory to a directory outside of it, a
  request for the link itself is refused, but every file below the link's target is served.
\<close>

theorem directory_links_leave_the_root:
  assumes "\<forall>s \<in> set rs. plain_seg s" "rs \<noteq> []" "plain_seg d" "\<forall>s \<in> set us. plain_seg s" "us \<noteq> []"
    and "Abs os (CHR ''/'' # Join rs ''/'') = Inr (CHR ''/'' # Join rs ''/'')"
    and "\<not> HasPrefix dst (CHR ''/'' # Join rs ''/'')" "d_Lstat disk dst = Inr False"
    and "d_Lstat disk (dst @ ''/'' @ Join us ''/'') = Inr False" "d_Open disk (dst @ ''/'' @ Join us ''/'') = Inr secret"
  shows "let disk' = with_link disk (CHR ''/'' # Join (rs @ [d]) ''/'') dst; root = CHR ''/'' # Join rs ''/'' in
    Directory_Open os disk' root (CHR ''/'' # d) = Inl ErrOutsideRoot \<and>
    Directory_Open os disk' root (CHR ''/'' # Join (d # us) ''/'') = Inr secret"
proof -
  define src where "src = CHR ''/'' # Join (rs @ [d]) ''/''"
  define disk' where "disk' = with_link disk src dst"
  have long: "CHR ''/'' # Join (rs @ d # us) ''/'' = src @ ''/'' @ Join us ''/''"
    using root_path [of "rs @ [d]" us] assms(5) by (simp add: src_def)
  have "HasPrefix src (CHR ''/'' # Join rs ''/'')" using assms(2) by (simp add: src_def Join_append)
  then have "\<not> HasPrefix dst (src @ ''/'')" "dst \<noteq> src"
    using assms(7) by (auto simp: HasPrefix_prefix dest: prefix_order.trans append_prefixD)
  then have "d_Lstat disk' src = Inr True" "d_Readlink disk' src = Inr dst" "d_Lstat disk' dst = Inr False"
    using assms(8) by (simp_all add: disk'_def with_link_def Let_def)
  then have "resolve_loop disk' (CHR ''/'' # Join rs ''/'') 0 src = Inl ErrOutsideRoot"
    using assms(7) by (simp add: resolve_loop_link resolve_loop_file)
  then have first: "Directory_Open os disk' (CHR ''/'' # Join rs ''/'') (CHR ''/'' # d) = Inl ErrOutsideRoot"
    using path_Join_rooted [of rs "[d]"] assms by (simp add: Directory_Open_split src_def)
  have "d_Lstat disk' (src @ ''/'' @ Join us ''/'') = Inr False" "d_Open disk' (src @ ''/'' @ Join us ''/'') = Inr secret"
    using assms(9,10) by (simp_all add: disk'_def with_link_def Let_def HasPrefix_def)
  then have "Directory_Open os disk' (CHR ''/'' # Join rs ''/'') (CHR ''/'' # Join (d # us) ''/'') = Inr secret"
    using Directory_Open_file [of rs "d # us" os disk'] assms by (simp only: long) simp
  with first show ?thesis by (simp add: Let_def disk'_def src_def)
qed

theorem directory_links_leave_the_root_witness:
  "Directory_Open empty_OS (with_link (example_disk\<lparr>d_Lstat := (\<lambda>_. Inr False), d_Open := (\<lambda>_. Inr example_file)\<rparr>) ''/srv/www/d'' ''/etc'')
     ''/srv/www'' ''/d/passwd'' = Inr example_file"
proof -
  have "Abs empty_OS ''/srv/www'' = Inr ''/srv/www''" by code_simp
  then show ?thesis
    using directory_links_leave_the_root [of "[''srv'', ''www'']" "''d''" "[''passwd'']" empty_OS "''/etc''"
      "example_disk\<lparr>d_Lstat := (\<lambda>_. Inr False), d_Open := (\<lambda>_. Inr example_file)\<rparr>" example_file]
    by (simp add: plain_seg_def Let_def)
qed

text \<open>A link with a relative target, as \<open>ln -s\<close> makes them, is looked up from the working directory and refused.\<close>

lemma relative_links_refused:
  assumes "root \<noteq> []" "Abs os root = Inr absRoot" "HasPrefix absRoot ''/''" "\<not> HasPrefix target ''/''"
    and "d_Lstat disk (path_Join [absRoot, relPath]) = Inr True" "d_Readlink disk (path_Join [absRoot, relPath]) = Inr target"
    and "d_Lstat disk target \<noteq> Inr True"
  shows "Directory_Open os disk root relPath =
    Inl (case d_Lstat disk target of Inl err \<Rightarrow> DiskError err | Inr symlink \<Rightarrow> ErrOutsideRoot)"
proof -
  have "\<not> HasPrefix target absRoot"
    using assms(3,4) by (cases absRoot; cases target) auto
  with assms show ?thesis
    by (simp add: Directory_Open_split resolve_loop_link resolve_loop.simps [of disk absRoot "Suc 0"] split: sum.splits)
qed

section \<open>Listings\<close>

text \<open>
  C36. The order of a listing: the two stable sorts put the directories first and the files after them, both in the order
  of their names, entries of the same name staying in the order they were read in.
\<close>

theorem sortFiles_directories_first:
  "sortFiles files = sort_key fi_Name (filter fi_IsDir files) @ sort_key fi_Name (filter (\<lambda>f. \<not> fi_IsDir f) files)"
proof -
  have split: "sort_key P xs = filter (\<lambda>x. \<not> P x) xs @ filter P xs" for P and xs :: "FileInfo list"
  proof (induction xs)
    case (Cons x xs)
    have "insort_key P x (filter (\<lambda>x. \<not> P x) ys @ filter P zs) = filter (\<lambda>x. \<not> P x) ys @ x # filter P zs" if "P x" for ys zs
      using that by (induction ys) (auto split: list.splits simp: insort_is_Cons)
    with Cons show ?case by (cases "P x") (auto simp: insort_is_Cons)
  qed simp
  show ?thesis by (simp add: sortFiles_def split filter_sort)
qed

lemma size_shown: "\<exists>s. ByteCountIEC (sint (n :: 64 word)) = Ret s"
  by (rule ByteCountIEC_total) (use sint_greater_eq [of n] sint_less [of n] in \<open>simp add: int64_def\<close>)

lemma newFsEntries_names:
  "\<exists>es. newFsEntries files uri = Ret es \<and>
    map Name es = map fi_Name files \<and> map FullName es = map (\<lambda>f. path_Join [uri, fi_Name f]) files"
proof (induction files)
  case (Cons f files)
  then obtain es s where "newFsEntries files uri = Ret es" "map Name es = map fi_Name files"
    "map FullName es = map (\<lambda>f. path_Join [uri, fi_Name f]) files" "ByteCountIEC (sint (fi_Size f)) = Ret s"
    using size_shown by metis
  then show ?case by (simp add: newFsEntry_def)
qed simp

lemma path_Join_entry:
  assumes "\<forall>s \<in> set segs. plain_seg s" "plain_seg f"
  shows "path_Join [CHR ''/'' # Join segs ''/'', f] = CHR ''/'' # Join (segs @ [f]) ''/''"
proof -
  have "f \<noteq> []" using assms(2) by (simp add: plain_seg_def)
  moreover have "Clean (''//'' @ f) = CHR ''/'' # f"
    using assms(2) Clean_plain [of "[f]"] by (simp add: Clean_def rooted_def plain_seg_def)
  ultimately show ?thesis
    using path_Join_file [OF _ assms] by (cases "segs = []") (simp_all add: path_Join_def Join_append)
qed

lemma Dir_plain:
  assumes "\<forall>s \<in> set segs. plain_seg s" "segs \<noteq> []"
  shows "Dir (CHR ''/'' # Join segs ''/'') = CHR ''/'' # Join (butlast segs) ''/''"
proof -
  obtain ss s where segs: "segs = ss @ [s]" using assms(2) by (metis append_butlast_last_id)
  with assms(1) have ss: "\<forall>s \<in> set ss. plain_seg s" and s: "CHR ''/'' \<notin> set s" by (simp_all add: plain_seg_def)
  have cut: "dropWhile (\<lambda>c. c \<noteq> CHR ''/'') (rev s @ CHR ''/'' # rest) = CHR ''/'' # rest" for rest
    using s by (subst dropWhile_append2) auto
  show ?thesis
  proof (cases "ss = []")
    case True
    then show ?thesis using cut [of "[]"] segs by (simp add: Dir_def Clean_def rooted_def)
  next
    case False
    have "rev (CHR ''/'' # Join segs ''/'') = rev s @ CHR ''/'' # rev (CHR ''/'' # Join ss ''/'')"
      using False by (simp add: segs Join_append)
    then have "Dir (CHR ''/'' # Join segs ''/'') = Clean (CHR ''/'' # Join ss ''/'' @ ''/'')"
      by (simp only: Dir_def cut) simp
    then show ?thesis using Clean_plain_slash [OF False ss] segs by simp
  qed
qed

text \<open>
  C29. A listing is complete and its links are right: for a directory requested by an absolute path, whatever the 64-bit sizes of
  its files, every file has one entry, which links to the path of the directory followed by the file's name; an entry
  \<open>..\<close> linking to the parent comes first, except at the root.
\<close>

theorem dirEntries_links:
  assumes "\<forall>s \<in> set segs. plain_seg s" "\<forall>f \<in> set files. plain_seg (fi_Name f)"
  shows "\<exists>es. dirEntries files (CHR ''/'' # Join segs ''/'') = Ret es \<and>
    map Name es = (if segs = [] then [] else [''..'']) @ map fi_Name (sortFiles files) \<and>
    map FullName es = (if segs = [] then [] else [CHR ''/'' # Join (butlast segs) ''/'']) @
      map (\<lambda>f. CHR ''/'' # Join (segs @ [fi_Name f]) ''/'') (sortFiles files)"
proof -
  define uri where "uri = CHR ''/'' # Join segs ''/''"
  have set: "set (sortFiles files) = set files" by (simp add: sortFiles_def)
  obtain es where es: "newFsEntries (sortFiles files) uri = Ret es" "map Name es = map fi_Name (sortFiles files)"
    "map FullName es = map (\<lambda>f. path_Join [uri, fi_Name f]) (sortFiles files)"
    using newFsEntries_names [of "sortFiles files" uri] by auto
  have "path_Join [uri, f] = CHR ''/'' # Join (segs @ [f]) ''/''" if "plain_seg f" for f
    unfolding uri_def by (rule path_Join_entry [OF assms(1) that])
  then have "map FullName es = map (\<lambda>f. CHR ''/'' # Join (segs @ [fi_Name f]) ''/'') (sortFiles files)"
    unfolding es(3) using assms(2) set by (intro map_cong) auto
  moreover have "uri \<noteq> ''.'' \<and> (uri = ''/'' \<longleftrightarrow> segs = [])"
    using Join_plain_not_Nil [OF _ assms(1)] by (auto simp: uri_def)
  ultimately show ?thesis
    using es Dir_plain [OF assms(1)] by (cases "segs = []") (simp_all add: dirEntries_def uri_def)
qed

theorem dirEntries_links_witness:
  "\<exists>es. dirEntries [\<lparr>fi_Name = ''a'', fi_Size = 2000, fi_IsDir = False, fi_Modified = [], fi_Sys = None\<rparr>] ''/d'' = Ret es \<and>
    map Name es = [''..'', ''a''] \<and> map FullName es = [''/'', ''/d/a'']"
  using dirEntries_links [of "[''d'']" "[\<lparr>fi_Name = ''a'', fi_Size = 2000, fi_IsDir = False, fi_Modified = [], fi_Sys = None\<rparr>]"]
  by (simp add: plain_seg_def sortFiles_def)

text \<open>A name that a URL leaves alone up to percent coding.\<close>

definition link_safe :: "string \<Rightarrow> bool" where
  "link_safe s \<longleftrightarrow> CHR ''?'' \<notin> set s \<and> CHR ''#'' \<notin> set s \<and> CHR 0x25 \<notin> set s"

lemma link_safe_Join: "\<forall>s \<in> set segs. link_safe s \<Longrightarrow> link_safe (CHR ''/'' # Join segs ''/'')"
proof -
  have "set (Join segs ''/'') \<subseteq> \<Union> (set ` set segs) \<union> {CHR ''/''}"
    by (induction segs "''/''" rule: Join.induct) auto
  then show "\<forall>s \<in> set segs. link_safe s \<Longrightarrow> link_safe (CHR ''/'' # Join segs ''/'')"
    by (auto simp: link_safe_def)
qed

lemma plain_path_single_slash: "\<forall>s \<in> set segs. plain_seg s \<Longrightarrow> \<not> HasPrefix (Join segs ''/'') ''/''"
  by (cases segs; cases "tl segs"; cases "hd segs") (auto simp: plain_seg_def)

text \<open>The link in the row of an entry: a URL of path characters that decodes to the path of the entry.\<close>

lemma newFsEntry_link:
  assumes "\<forall>s \<in> set (segs @ [fi_Name fi]). plain_seg s \<and> link_safe s"
  shows "\<exists>e target. newFsEntry fi (CHR ''/'' # Join segs ''/'') = Ret e \<and> fsTemplate_row e ! 3 = htmlescaper target \<and>
    HasPrefix target ''/'' \<and> \<not> HasPrefix target ''//'' \<and> list_all path_char target \<and>
    unescape target encodePath = Inr (CHR ''/'' # Join (segs @ [fi_Name fi]) ''/'')"
proof -
  let ?p = "CHR ''/'' # Join (segs @ [fi_Name fi]) ''/''"
  have plain: "\<forall>s \<in> set segs. plain_seg s" "plain_seg (fi_Name fi)" "\<forall>s \<in> set (segs @ [fi_Name fi]). plain_seg s"
    using assms by simp_all
  obtain size where "ByteCountIEC (sint (fi_Size fi)) = Ret size" using size_shown by blast
  then obtain e where e: "newFsEntry fi (CHR ''/'' # Join segs ''/'') = Ret e" "FullName e = ?p"
    using path_Join_entry [OF plain(1,2)] by (simp add: newFsEntry_def)
  have row: "fsTemplate_row e ! 3 = htmlescaper (urlnormalizer ?p)"
    using e(2) by (simp add: fsTemplate_row_def href_def eval_nat_numeral urlfilter_def isSafeURL_def)
  have safe: "link_safe ?p" using assms by (intro link_safe_Join) simp
  have chars: "list_all path_char (urlnormalizer ?p)" "unescape (urlnormalizer ?p) encodePath = Inr ?p"
    using safe by (intro urlnormalizer_path_chars unescape_urlnormalizer; auto simp: link_safe_def)+
  have "\<not> HasPrefix (urlnormalizer ?p) ''//''" "HasPrefix (urlnormalizer ?p) ''/''"
    using plain_path_single_slash [OF plain(3)] by (cases "Join (segs @ [fi_Name fi]) ''/''") auto
  with e(1) row chars show ?thesis by blast
qed

text \<open>A question mark in a file's name is not escaped: the link leads to another path.\<close>

theorem question_mark_breaks_link:
  "\<exists>u. URL_Parse (urlnormalizer (urlfilter ''/what?.txt'')) = Inr u \<and> Path u = ''/what'' \<and> RawQuery u = ''.txt''"
proof -
  have "map_sum id (\<lambda>u. (Path u, RawQuery u)) (URL_Parse (urlnormalizer (urlfilter ''/what?.txt''))) = Inr (''/what'', ''.txt'')"
    by code_simp
  then show ?thesis by (auto simp: map_sum_Inr_iff)
qed

section \<open>The handler returns\<close>

lemma dirEntries_total: "\<exists>es. dirEntries files uri = Ret es"
  using newFsEntries_names [of "sortFiles files" uri] by (auto simp: dirEntries_def)

lemma FileServer_serve_total: "\<exists>a. FileServer_serve env fsOpen r h = Ret a"
proof -
  have "\<exists>a. handleDir h f uri = Ret a" for f uri
    using dirEntries_total by (fastforce simp: handleDir_def split: sum.splits)
  then show ?thesis by (simp add: FileServer_serve_def Let_def split: sum.splits option.splits)
qed

section \<open>Files that cannot be rewound\<close>

lemma reply_body: "w_Body (reply w a) = w_Body w @ concat (an_Body a)"
  by (simp add: reply_def Let_def body_simps split: option.splits)

text \<open>
  The handler does not stop after it has copied a file that cannot seek, such as every file of an S3 target.
  \<open>http.ServeContent\<close> is documented to need a seekable file and answers with an error otherwise; its message is
  appended to the content the client receives.
\<close>

theorem unseekable_file_gets_error_appended:
  assumes "fsOpen (Clean (Path (r_URL r))) = Inr f" "f_Stat f = Inr fi" "\<not> fi_IsDir fi" "f_Seek f = Some err"
    and "\<And>g gi q h. f_Seek g \<noteq> None \<Longrightarrow>
      fe_ServeContent env g gi q h = error_answer h ''seeker can't seek'' StatusInternalServerError"
  shows "\<exists>a. FileServer_serve env fsOpen r h = Ret a \<and>
    w_Body (reply Response_zero a) = concat (f_Content f) @ ''seeker can't seek'' @ [CHR 0x0A]"
  using assms by (simp add: FileServer_serve_def Let_def reply_body Response_zero_def error_answer_def)

theorem unseekable_file_gets_error_appended_witness:
  "\<exists>a. FileServer_serve \<lparr>fe_Quote = (\<lambda>s. s),
       fe_ServeContent = (\<lambda>g gi q h. if f_Seek g = None then \<lparr>an_Header = h, an_Status = None, an_Body = f_Content g\<rparr>
         else error_answer h ''seeker can't seek'' StatusInternalServerError)\<rparr>
     (\<lambda>_. Inr (example_file\<lparr>f_Seek := Some ''no seek''\<rparr>)) (get_request ''a.com'' ''/a'') no_headers = Ret a \<and>
   w_Body (reply Response_zero a) = ''helloseeker can't seek'' @ [CHR 0x0A]"
  by (rule exE [OF unseekable_file_gets_error_appended [of "\<lambda>_. Inr (example_file\<lparr>f_Seek := Some ''no seek''\<rparr>)" "get_request ''a.com'' ''/a''"]])
    (auto simp: example_file_def)

end
