(* ===== verification/Sites.thy ===== *)
theory Sites
  imports SftpFS Server
begin

text \<open>
  Sites made of files: the handlers that the factory builds for \<open>file\<close>, \<open>s3\<close> and \<open>sftp\<close> targets, with the file server of
  \<open>src/pkg/fileserver\<close> in the place of the parameter \<open>be_FileServer\<close>. The disk, the SFTP servers and the buckets remain
  parameters.
\<close>

section \<open>File systems\<close>

text \<open>A file of an \<open>fs.FS\<close>; seeking and reading a directory are optional methods. A directory entry may fail to give its info.\<close>

record fsFile =
  ff_Stat :: "string + FileInfo"
  ff_Seek :: "(string option) option"
  ff_Content :: "string list"
  ff_ReadDir :: "(string + (string + FileInfo) list) option"

datatype open_error = ErrNotExist string | ErrPermission string | OtherError string

record fsFS =
  fsys_Open :: "string \<Rightarrow> open_error + fsFile"
  fsys_Stat :: "string \<Rightarrow> string + FileInfo"

text \<open>\<open>http.FS\<close>: the file system of \<open>net/http\<close> around an \<open>fs.FS\<close>, and what it makes of errors and files.\<close>

definition ioFile :: "fsFile \<Rightarrow> File" where
  "ioFile f =
     \<lparr>f_Stat = ff_Stat f,
      f_Seek = (case ff_Seek f of None \<Rightarrow> Some ''io.File missing Seek method'' | Some res \<Rightarrow> res),
      f_Content = ff_Content f,
      f_Readdir =
        (case ff_ReadDir f of
           None \<Rightarrow> Inl ''io.File directory missing ReadDir method''
         | Some (Inl err) \<Rightarrow> Inl err
         | Some (Inr dirs) \<Rightarrow> Inr [fi. Inr fi \<leftarrow> dirs])\<rparr>"

fun open_error_text :: "open_error \<Rightarrow> string" where
  "open_error_text (ErrNotExist err) = err"
| "open_error_text (ErrPermission err) = err"
| "open_error_text (OtherError err) = err"

fun map_parts :: "(string \<Rightarrow> string + FileInfo) \<Rightarrow> string \<Rightarrow> string list \<Rightarrow> string list \<Rightarrow> string" where
  "map_parts stat err seen [] = err"
| "map_parts stat err seen (part # parts) =
     (if part = [] then map_parts stat err (seen @ [part]) parts
      else case stat (Join (seen @ [part]) ''/'') of
             Inl _ \<Rightarrow> err
           | Inr fi \<Rightarrow> if \<not> fi_IsDir fi then ''file does not exist'' else map_parts stat err (seen @ [part]) parts)"

definition mapOpenError :: "(string \<Rightarrow> string + FileInfo) \<Rightarrow> open_error \<Rightarrow> string \<Rightarrow> string" where
  "mapOpenError stat e name =
     (case e of OtherError err \<Rightarrow> map_parts stat err [] (Split name CHR ''/'') | _ \<Rightarrow> open_error_text e)"

definition ioFS_Open :: "fsFS \<Rightarrow> string \<Rightarrow> string + File" where
  "ioFS_Open fsys name0 =
     (let name = (if name0 = ''/'' then ''.'' else TrimPrefix name0 ''/'') in
      case fsys_Open fsys name of
        Inl e \<Rightarrow> Inl (mapOpenError (fsys_Stat fsys) e name)
      | Inr f \<Rightarrow> Inr (ioFile f))"

section \<open>Sites\<close>

record Storage =
  st_Disk :: Disk
  st_S3 :: "s3FS \<Rightarrow> fsFS"
  st_Sftp :: SftpServer
  st_Env :: FileServerEnv

definition FileSystem_Open :: "OS \<Rightarrow> Storage \<Rightarrow> FileSystem \<Rightarrow> string \<Rightarrow> string + File" where
  "FileSystem_Open os st fs name =
     (case fs of
        Directory dir \<Rightarrow> map_sum fs_error_text id (Directory_Open os (st_Disk st) dir name)
      | S3 s3 \<Rightarrow> ioFS_Open (st_S3 st s3) name
      | Sftp sftp \<Rightarrow> sftp_open (st_Sftp st) sftp name)"

text \<open>The backends of a server with these storages.\<close>

definition site_backends :: "OS \<Rightarrow> Storage \<Rightarrow> Backends \<Rightarrow> Backends" where
  "site_backends os st be =
     be\<lparr>be_FileServer := (\<lambda>fs r h. FileServer_serve (st_Env st) (FileSystem_Open os st fs) r h)\<rparr>"

lemma site_backends_simps [simp]:
  "be_FileServer (site_backends os st be) fs r h = FileServer_serve (st_Env st) (FileSystem_Open os st fs) r h"
  "be_detect (site_backends os st be) = be_detect be" "be_tokenize (site_backends os st be) = be_tokenize be"
  "be_RoundTrip (site_backends os st be) = be_RoundTrip be" "be_PHP (site_backends os st be) = be_PHP be"
  by (simp_all add: site_backends_def)

text \<open>Examples: a disk, an empty bucket and an SFTP server, with a \<open>ServeContent\<close> that sends the whole file.\<close>

definition example_storage :: Storage where
  "example_storage =
     \<lparr>st_Disk = example_disk,
      st_S3 = (\<lambda>_. \<lparr>fsys_Open = (\<lambda>_. Inl (ErrNotExist ''NoSuchKey'')), fsys_Stat = (\<lambda>_. Inl ''NoSuchKey'')\<rparr>),
      st_Sftp = dir_server,
      st_Env = \<lparr>fe_Quote = (\<lambda>s. s), fe_ServeContent = (\<lambda>f fi r h. \<lparr>an_Header = h, an_Status = Some StatusOK, an_Body = f_Content f\<rparr>)\<rparr>\<rparr>"

definition site_OS :: OS where
  "site_OS = empty_OS\<lparr>os_Stat := (\<lambda>p. if p = ''/srv/www'' then Inr True else Inl ''no such file'')\<rparr>"

definition site_target :: URL where
  "site_target = URL_zero\<lparr>Scheme := ''file'', Path := ''/srv/www''\<rparr>"

section \<open>What a file site serves\<close>

lemma file_handler:
  assumes "splitHostnameAndPath host = (hostname, hostPath)" "Scheme target = ''file''" "os_Stat os (Host target @ Path target) = Inr True"
  shows "HandlerFactory_Handler os hf host target =
    Inr (PathCombinations (FileServer (Directory (Host target @ Path target))) hostname hostPath [])"
  using assms by (simp add: HandlerFactory_Handler_def newFileServer_def)

lemma Abs_plain: "\<forall>s \<in> set rs. plain_seg s \<Longrightarrow> Abs os (CHR ''/'' # Join rs ''/'') = Inr (CHR ''/'' # Join rs ''/'')"
  by (simp add: Abs_def rooted_def Clean_plain)

text \<open>Below a host path, the file server is asked for the rest of the path.\<close>

lemma stripHostPath_rest:
  "HasPrefix rest ''/'' \<Longrightarrow> Path u = hostPath @ rest \<Longrightarrow> Path (stripHostPath hostPath u) = rest"
  by (simp add: stripHostPath_Path TrimPrefix_def HasPrefix_def)

text \<open>
  C13. A file site serves its files. For a hostname with or without a path and a \<open>file\<close> target that is a directory, a request for the host path
  followed by a path below it reaches the file of that path in the directory, if it is no link and no directory: the client
  gets the status of \<open>http.ServeContent\<close> for that file, its headers with the location rewritten, and its body
  byte for byte, or, for HTML, its body with the links rewritten.
\<close>

theorem file_site_serves_file:
  assumes "splitHostnameAndPath host = (hostname, hostPath)" "Scheme target = ''file''" "Host target @ Path target = CHR ''/'' # Join rs ''/''"
    and "\<forall>s \<in> set (rs @ us). plain_seg s" "rs \<noteq> []" "os_Stat os (Host target @ Path target) = Inr True"
    and "Path (r_URL r) = hostPath @ CHR ''/'' # Join us ''/''"
    and "d_Lstat (st_Disk st) (CHR ''/'' # Join (rs @ us) ''/'') = Inr False" "d_Open (st_Disk st) (CHR ''/'' # Join (rs @ us) ''/'') = Inr f"
    and "f_Stat f = Inr fi" "\<not> fi_IsDir fi" "f_Seek f = None"
    and "fe_ServeContent (st_Env st) f fi (r\<lparr>r_URL := stripHostPath hostPath (r_URL r)\<rparr>) (w_Header w) =
      \<lparr>an_Header = h1, an_Status = Some code, an_Body = ps\<rparr>"
    and "w_Sent w = None" "be_tokenize be [] = []"
  shows "\<exists>h out. HandlerFactory_Handler os hf host target = Inr h \<and> Handler_ServeHTTP (site_backends os st be) h w r = Ret out \<and>
    w_Sent out = Some (code, rewritten_header hostname hostPath [] h1) \<and>
    w_Body out = w_Body w @ (if HasPrefix (Header_Get h1 ''Content-Type'') ''text/html''
      then renderTokens (modifyToken hostname hostPath []) 0 (be_tokenize be (concat ps)) else concat ps)"
proof -
  let ?r = "r\<lparr>r_URL := stripHostPath hostPath (r_URL r)\<rparr>" and ?root = "CHR ''/'' # Join rs ''/''"
  have plain: "\<forall>s \<in> set rs. plain_seg s" "\<forall>s \<in> set us. plain_seg s" using assms(4) by simp_all
  have uri: "Clean (Path (r_URL ?r)) = CHR ''/'' # Join us ''/''"
    using stripHostPath_rest [OF _ assms(7)] Clean_plain [OF plain(2)] by simp
  have "FileSystem_Open os st (Directory ?root) (CHR ''/'' # Join us ''/'') = Inr f"
    using Directory_Open_file [OF plain(1) assms(5) plain(2) Abs_plain [OF plain(1)] assms(8)] assms(9)
    by (simp add: FileSystem_Open_def)
  then have "FileServer_serve (st_Env st) (FileSystem_Open os st (Directory ?root)) ?r (w_Header w) =
      Ret \<lparr>an_Header = h1, an_Status = Some code, an_Body = ps\<rparr>"
    using assms(10-13) by (simp only: FileServer_serve_def Let_def uri) simp
  then have "Handler_ServeHTTP (site_backends os st be) (PathCombinations (FileServer (Directory ?root)) hostname hostPath []) w r =
      Ret (pathPrefix_respond (be_detect be) (be_tokenize be) (NewPathPrefixHTMLResponseWriter hostname hostPath [] (w\<lparr>w_Header := h1\<rparr>))
        (Some code) ps)"
    by (simp add: Handler_ServeHTTP_def handlePathCombinations_def BaseHandler_serve_def)
  then show ?thesis
    using file_handler [OF assms(1,2,6), of hf] assms(3,14,15) by (simp add: respond_explicit)
qed

theorem file_site_serves_file_witness:
  "\<exists>h out. HandlerFactory_Handler site_OS \<lparr>phpClientFactory = None\<rparr> ''a.com/files'' site_target = Inr h \<and>
     Handler_ServeHTTP (site_backends site_OS example_storage idle_backends) h Response_zero (get_request ''a.com'' ''/files/a'') = Ret out \<and>
     w_Body out = ''hello''"
proof -
  have split: "splitHostnameAndPath ''a.com/files'' = (''a.com'', ''/files'')" by code_simp
  have p: "Path (r_URL (get_request ''a.com'' ''/files/a'')) = ''/files'' @ CHR ''/'' # Join [''a''] ''/''" by (simp add: get_request_def)
  have t: "Scheme site_target = ''file''" "Host site_target @ Path site_target = CHR ''/'' # Join [''srv'', ''www''] ''/''"
    "os_Stat site_OS (Host site_target @ Path site_target) = Inr True"
    by (simp_all add: site_target_def site_OS_def URL_zero_def)
  have plain: "\<forall>s \<in> set ([''srv'', ''www''] @ [''a'']). plain_seg s" by (simp add: plain_seg_def)
  have d: "d_Lstat (st_Disk example_storage) (CHR ''/'' # Join ([''srv'', ''www''] @ [''a'']) ''/'') = Inr False"
    "d_Open (st_Disk example_storage) (CHR ''/'' # Join ([''srv'', ''www''] @ [''a'']) ''/'') = Inr example_file"
    by (simp_all add: example_storage_def example_disk_def)
  define fi where "fi = \<lparr>fi_Name = ''a'', fi_Size = (5 :: 64 word), fi_IsDir = False, fi_Modified = [], fi_Sys = None\<rparr>"
  have f: "f_Stat example_file = Inr fi" "\<not> fi_IsDir fi" "f_Seek example_file = None" "f_Content example_file = [''hello'']"
    by (simp_all add: example_file_def fi_def)
  have c: "fe_ServeContent (st_Env example_storage) example_file fi q hds = \<lparr>an_Header = hds, an_Status = Some StatusOK, an_Body = [''hello'']\<rparr>"
    for q hds by (simp add: example_storage_def f(4))
  have w: "w_Sent Response_zero = None" "be_tokenize idle_backends [] = []" by (simp_all add: Response_zero_def idle_backends_def)
  have "\<not> HasPrefix (Header_Get (w_Header Response_zero) ''Content-Type'') ''text/html''" by code_simp
  then show ?thesis
    using file_site_serves_file [OF split t(1,2) plain _ t(3) p d f(1-3) c w, of "\<lparr>phpClientFactory = None\<rparr>"] by (auto simp: Response_zero_def)
qed

section \<open>What a file site does not serve\<close>

lemma resolve_loop_cong:
  assumes "d_Lstat d1 = d_Lstat d2" "d_Readlink d1 = d_Readlink d2"
  shows "resolve_loop d1 root depth f = resolve_loop d2 root depth f"
  using assms
proof (induction d1 root depth f rule: resolve_loop.induct)
  case (1 disk root depth f)
  then show ?case
    by (subst (1 2) resolve_loop.simps) (simp split: sum.splits)
qed

lemma Directory_Open_cong:
  assumes "\<forall>s \<in> set rs. plain_seg s" "rs \<noteq> []" "d_Lstat d1 = d_Lstat d2" "d_Readlink d1 = d_Readlink d2"
    and "\<And>us. \<forall>s \<in> set us. plain_seg s \<Longrightarrow> d_Open d1 (CHR ''/'' # Join (rs @ us) ''/'') = d_Open d2 (CHR ''/'' # Join (rs @ us) ''/'')"
  shows "Directory_Open os d1 (CHR ''/'' # Join rs ''/'') relPath = Directory_Open os d2 (CHR ''/'' # Join rs ''/'') relPath"
proof -
  have "Dir_Open d1 (CHR ''/'' # Join rs ''/'') name = Dir_Open d2 (CHR ''/'' # Join rs ''/'') name" for name
  proof -
    obtain us where "Clean (CHR ''/'' # name) = CHR ''/'' # Join us ''/''" "\<forall>s \<in> set us. plain_seg s"
      using Clean_rooted [of "CHR ''/'' # name"] by (auto simp: rooted_def)
    with assms show ?thesis by (simp add: Dir_Open_def path_Join_rooted)
  qed
  then show ?thesis by (simp add: Directory_Open_def Directory_resolve_def resolve_loop_cong [OF assms(3,4)] split: sum.splits)
qed

text \<open>
  C9. A file site reveals nothing that is opened outside of its directory. Two disks with the same links, on which every path made of the
  directory followed by plain segments opens the same file, cannot be told apart by any request, whatever its path: the responses are
  equal, errors included.
\<close>

theorem file_site_reveals_only_its_root:
  assumes "Scheme target = ''file''" "Host target @ Path target = CHR ''/'' # Join rs ''/''" "\<forall>s \<in> set rs. plain_seg s" "rs \<noteq> []"
    and "os_Stat os (Host target @ Path target) = Inr True" "HandlerFactory_Handler os hf host target = Inr h"
    and "d_Lstat d1 = d_Lstat d2" "d_Readlink d1 = d_Readlink d2"
    and "\<And>us. \<forall>s \<in> set us. plain_seg s \<Longrightarrow> d_Open d1 (CHR ''/'' # Join (rs @ us) ''/'') = d_Open d2 (CHR ''/'' # Join (rs @ us) ''/'')"
  shows "Handler_ServeHTTP (site_backends os (st\<lparr>st_Disk := d1\<rparr>) be) h w r = Handler_ServeHTTP (site_backends os (st\<lparr>st_Disk := d2\<rparr>) be) h w r"
proof -
  obtain hostname hostPath where "splitHostnameAndPath host = (hostname, hostPath)" by fastforce
  then have h: "h = PathCombinations (FileServer (Directory (CHR ''/'' # Join rs ''/''))) hostname hostPath []"
    using file_handler [OF _ assms(1,5)] assms(2,6) by fastforce
  have "FileSystem_Open os (st\<lparr>st_Disk := d1\<rparr>) (Directory (CHR ''/'' # Join rs ''/'')) =
      FileSystem_Open os (st\<lparr>st_Disk := d2\<rparr>) (Directory (CHR ''/'' # Join rs ''/''))"
    using Directory_Open_cong [OF assms(3,4,7,8,9)] by (simp add: FileSystem_Open_def fun_eq_iff)
  then show ?thesis by (simp add: h Handler_ServeHTTP_def handlePathCombinations_def BaseHandler_serve_def)
qed

theorem file_site_reveals_only_its_root_witness:
  "\<exists>h. HandlerFactory_Handler site_OS \<lparr>phpClientFactory = None\<rparr> ''a.com'' site_target = Inr h \<and>
     Handler_ServeHTTP (site_backends site_OS example_storage idle_backends) h Response_zero (get_request ''a.com'' ''/../../etc/passwd'') =
     Handler_ServeHTTP (site_backends site_OS (example_storage\<lparr>st_Disk := example_disk\<lparr>d_Open :=
         (\<lambda>p. if p = ''/etc/passwd'' then Inr example_file else d_Open example_disk p)\<rparr>\<rparr>) idle_backends) h
       Response_zero (get_request ''a.com'' ''/../../etc/passwd'')"
proof -
  let ?d = "example_disk\<lparr>d_Open := (\<lambda>p. if p = ''/etc/passwd'' then Inr example_file else d_Open example_disk p)\<rparr>"
  have t: "Scheme site_target = ''file''" "Host site_target @ Path site_target = CHR ''/'' # Join [''srv'', ''www''] ''/''"
    "os_Stat site_OS (Host site_target @ Path site_target) = Inr True"
    by (simp_all add: site_target_def site_OS_def URL_zero_def)
  have plain: "\<forall>s \<in> set [''srv'', ''www'']. plain_seg s" by (simp add: plain_seg_def)
  have splitHostname: "splitHostnameAndPath ''a.com'' = (''a.com'', [])" by code_simp
  obtain h where h: "HandlerFactory_Handler site_OS \<lparr>phpClientFactory = None\<rparr> ''a.com'' site_target = Inr h"
    using file_handler [OF splitHostname t(1,3)] by blast
  have o: "d_Open example_disk (CHR ''/'' # Join ([''srv'', ''www''] @ us) ''/'') = d_Open ?d (CHR ''/'' # Join ([''srv'', ''www''] @ us) ''/'')" for us
    by (cases us) simp_all
  have st: "example_storage\<lparr>st_Disk := example_disk\<rparr> = example_storage" by (simp add: example_storage_def)
  have "Handler_ServeHTTP (site_backends site_OS (example_storage\<lparr>st_Disk := example_disk\<rparr>) idle_backends) h w r =
      Handler_ServeHTTP (site_backends site_OS (example_storage\<lparr>st_Disk := ?d\<rparr>) idle_backends) h w r" for w r
    by (rule file_site_reveals_only_its_root [OF t(1,2) plain _ t(3) h]) (use o in simp_all)
  with h show ?thesis unfolding st by blast
qed

section \<open>Handlers by scheme\<close>

text \<open>What a handler for a host and a target looks like. The host is cut at its first slash.\<close>

definition separated :: "string \<Rightarrow> string \<Rightarrow> string \<Rightarrow> bool" where
  "separated host hostname hostPath \<longleftrightarrow>
     hostname = takeWhile (\<lambda>c. c \<noteq> CHR ''/'') host \<and> hostPath = dropWhile (\<lambda>c. c \<noteq> CHR ''/'') host"

fun handler_of :: "OS \<Rightarrow> HandlerFactory \<Rightarrow> string \<Rightarrow> URL \<Rightarrow> Handler \<Rightarrow> bool" where
  "handler_of os hf host target (PathCombinations b hostname hostPath targetPath) \<longleftrightarrow>
     (case b of
        ServeFile f \<Rightarrow> Scheme target = ''file'' \<and> separated host hostname hostPath \<and> targetPath = [] \<and>
          f = Host target @ Path target \<and> os_Stat os f = Inr False
      | FileServer (Directory dir) \<Rightarrow> Scheme target = ''file'' \<and> separated host hostname hostPath \<and> targetPath = [] \<and>
          dir = Host target @ Path target \<and> os_Stat os dir \<noteq> Inr False
      | FileServer (S3 s3) \<Rightarrow> Scheme target = ''s3'' \<and> separated host hostname hostPath \<and> targetPath = [] \<and>
          (s3_bucket s3, s3_endpoint s3) = bucket_endpoint (Host target) \<and> s3_credentials s3 = target_credentials target \<and>
          s3_region s3 = map_of (Query target) ''region'' \<and> ValidPath (s3_prefix s3) \<and>
          s3_prefix s3 = (if length (Path target) \<le> 1 then ''.'' else Path target)
      | FileServer (Sftp sftp) \<Rightarrow> Scheme target = ''sftp'' \<and> separated host hostname hostPath \<and> targetPath = [] \<and>
          sf_hostname sftp = Host target \<and> sf_dir sftp = (if length (Path target) \<le> 1 then ''.'' else Path target) \<and>
          (sf_User sftp, sf_Auth sftp) =
            (case target_credentials target of None \<Rightarrow> (''anonymous'', []) | Some (user, password) \<Rightarrow> (user, [password]))
      | ReverseProxy url \<Rightarrow> Scheme target \<in> {''http'', ''https''} \<and> separated host hostname hostPath \<and>
          url = target \<and> targetPath = Path target
      | Redirect url \<Rightarrow> Scheme target = ''redirect'' \<and> separated host (takeWhile (\<lambda>c. c \<noteq> CHR ''/'') host) hostPath \<and>
          hostname = [] \<and> url = target \<and> targetPath = []
      | PHP session client \<Rightarrow> Scheme target = ''php'' \<and> separated host hostname hostPath \<and> phpClientFactory hf = Some client \<and>
          (case session of
             PHPFS dir \<Rightarrow> os_Stat os (Host target @ Path target) = Inr True \<and> Abs os (Host target @ Path target) = Inr dir \<and> targetPath = dir
           | FileEndpoint f \<Rightarrow> os_Stat os (Host target @ Path target) = Inr False \<and> Abs os (Host target @ Path target) = Inr f \<and> targetPath = Dir f))"
| "handler_of os hf host target (GoWasm hostPath f) \<longleftrightarrow> Scheme target = ''go-wasm'' \<and>
     separated host (takeWhile (\<lambda>c. c \<noteq> CHR ''/'') host) hostPath \<and> f = Host target @ Path target"
| "handler_of os hf host target (Tail f whence) \<longleftrightarrow>
     Scheme target = (case whence of SeekStart \<Rightarrow> ''tail'' | SeekEnd \<Rightarrow> ''tail-new'') \<and> f = Host target @ Path target"

lemma newSftpFS_spec:
  "newSftpFS target =
     \<lparr>sf_hostname = Host target, sf_User = (case target_credentials target of None \<Rightarrow> ''anonymous'' | Some (user, _) \<Rightarrow> user),
      sf_Auth = (case target_credentials target of None \<Rightarrow> [] | Some (_, password) \<Rightarrow> [password]),
      sf_dir = (if length (Path target) \<le> 1 then ''.'' else Path target)\<rparr>"
  by (simp add: newSftpFS_def target_credentials_def Password_def Username_def split: option.splits)

lemma built_handler_of:
  assumes "HandlerFactory_Handler os hf host target = Inr h"
  shows "handler_of os hf host target h"
proof -
  obtain hostname hostPath where s: "splitHostnameAndPath host = (hostname, hostPath)" by fastforce
  then have sep: "separated host hostname hostPath" "separated host (takeWhile (\<lambda>c. c \<noteq> CHR ''/'') host) hostPath"
    by (simp_all add: splitHostnameAndPath_spec separated_def)
  have dot: "ValidPath ''.''" by (simp add: ValidPath_def)
  consider "Scheme target = ''file''" | "Scheme target = ''s3''" | "Scheme target = ''sftp''" | "Scheme target = ''php''"
    | "Scheme target \<notin> {''file'', ''s3'', ''sftp'', ''php''}" by blast
  then show ?thesis
  proof cases
    case 1
    then show ?thesis
      using assms sep by (auto simp: HandlerFactory_Handler_def s newFileServer_def Let_def split: if_splits sum.splits)
  next
    case 2
    then show ?thesis
      using assms sep dot by (auto simp: HandlerFactory_Handler_def s newS3Handler_spec Let_def split: if_splits option.splits)
  next
    case 3
    then show ?thesis
      using assms sep by (auto simp: HandlerFactory_Handler_def s newSftpHandler_def newSftpFS_spec Let_def split: option.splits)
  next
    case 4
    then show ?thesis
      using assms sep by (auto simp: HandlerFactory_Handler_def s newPHPHandler_def Let_def split: if_splits option.splits sum.splits)
  next
    case 5
    then show ?thesis
      using assms sep by (auto simp: HandlerFactory_Handler_def s newProxyHandler_def newRedirectHandler_def newGoWasmHandler_def
          newTailHandler_def Let_def split: if_splits)
  qed
qed

text \<open>
  C18. The factory builds the handler that the host and the target name. The host is cut at its first slash into the hostname and the
  host path under which responses are rewritten. A \<open>file\<close> target serves its own path, as one file exactly if the operating system says that it
  is no directory; a proxy goes to the target and rewrites locations under the target's path, a redirect goes to the target and
  rewrites none; an S3 site reads the bucket, the endpoint, the region and the prefix of its target with the target's credentials, an SFTP site the
  host and the directory of its target as the target's user or as anonymous; PHP runs the absolute path of its target through the configured
  client; Go WebAssembly and tailing use the target's file, and the two tailing schemes start at the two ends of it.
\<close>

theorem handlers_have_their_type:
  assumes "HandlerFactory_Handler os hf host target = Inr h"
  shows "handler_of os hf host target h"
  using assms by (rule built_handler_of)

theorem handlers_have_their_type_witness:
  "handler_of empty_OS \<lparr>phpClientFactory = None\<rparr> ''a.com/app'' proxy_target
     (PathCombinations (ReverseProxy proxy_target) ''a.com'' ''/app'' ''/base'')"
proof -
  have "HandlerFactory_Handler empty_OS \<lparr>phpClientFactory = None\<rparr> ''a.com/app'' proxy_target =
      Inr (PathCombinations (ReverseProxy proxy_target) ''a.com'' ''/app'' ''/base'')" by code_simp
  from handlers_have_their_type [OF this] show ?thesis .
qed

section \<open>Panics\<close>

lemma joinURLPath_total: "\<exists>x. joinURLPath a b = Ret x"
  using joinURLPath_forms [of a b] by blast

text \<open>The request that the proxied server gets, and whether a backend panics on what it is asked.\<close>

definition backend_panics :: "Backends \<Rightarrow> BaseHandler \<Rightarrow> Request \<Rightarrow> Header \<Rightarrow> bool" where
  "backend_panics be b r h \<longleftrightarrow>
     (case b of
        ReverseProxy target \<Rightarrow> (case director target r of Ret r' \<Rightarrow> be_RoundTrip be r' h = Panic | Panic \<Rightarrow> False)
      | PHP session client \<Rightarrow> be_PHP be session client r h = Panic
      | _ \<Rightarrow> False)"

lemma director_total: "\<exists>r'. director target r = Ret r'"
  using joinURLPath_total [of target "r_URL r"] by (auto simp: director_def)

lemma redirectURL_total: "\<exists>u'. redirectURL target u = Ret u'"
  using joinURLPath_total [of target "u\<lparr>Host := Host target\<rparr>"] by (auto simp: redirectURL_def)

lemma BaseHandler_serve_panics: "BaseHandler_serve (site_backends os st be) b r h = Panic \<longleftrightarrow> backend_panics be b r h"
proof (cases b)
  case (FileServer fs)
  then show ?thesis
    using FileServer_serve_total [of "st_Env st" "FileSystem_Open os st fs" r h] by (auto simp: BaseHandler_serve_def backend_panics_def)
next
  case (ReverseProxy target)
  then show ?thesis using director_total [of target r] by (auto simp: BaseHandler_serve_def backend_panics_def)
next
  case (Redirect target)
  then show ?thesis using redirectURL_total [of target "r_URL r"] by (auto simp: BaseHandler_serve_def backend_panics_def)
qed (simp_all add: BaseHandler_serve_def backend_panics_def)

lemma bind_Panic_Ret: "bind_outcome x (\<lambda>a. Ret (f a)) = Panic \<longleftrightarrow> x = Panic"
  by (cases x) simp_all

lemma PathCombinations_panics:
  "Handler_ServeHTTP (site_backends os st be) (PathCombinations b hostname hostPath targetPath) w r = Panic \<longleftrightarrow>
     backend_panics be b (r\<lparr>r_URL := stripHostPath hostPath (r_URL r)\<rparr>) (w_Header w)"
  by (simp add: Handler_ServeHTTP_def handlePathCombinations_def bind_Panic_Ret BaseHandler_serve_panics)

text \<open>
  C19. When a request panics. Serving files and redirecting never do, whatever is requested. A proxy does exactly if forwarding the directed request
  does (\<open>httputil.ReverseProxy\<close> aborts when the body of the proxied server breaks off), and PHP exactly if the FastCGI handler does: neither
  directing nor rewriting panics by itself. A Go WebAssembly site does exactly for its page and its loader script, and a tailing one
  exactly if its file cannot be tailed.
\<close>

theorem handler_panics_iff:
  "Handler_ServeHTTP (site_backends os st be) h w r = Panic \<longleftrightarrow>
     (case h of
        PathCombinations b hostname hostPath targetPath \<Rightarrow>
          (let r1 = r\<lparr>r_URL := stripHostPath hostPath (r_URL r)\<rparr> in
           case b of
             ServeFile f \<Rightarrow> False
           | FileServer fs \<Rightarrow> False
           | Redirect target \<Rightarrow> False
           | ReverseProxy target \<Rightarrow> (\<exists>r2. director target r1 = Ret r2 \<and> be_RoundTrip be r2 (w_Header w) = Panic)
           | PHP session client \<Rightarrow> be_PHP be session client r1 (w_Header w) = Panic)
      | GoWasm hostPath f \<Rightarrow> Path (r_URL r) \<noteq> Clean hostPath \<and>
          Path (r_URL r) \<in> {Clean hostPath @ ''/'', path_Join [hostPath, ''go-wasm.js'']}
      | Tail f whence \<Rightarrow> \<not> is_ok (be_TailFile be f whence))"
proof (cases h)
  case (PathCombinations b hostname hostPath targetPath)
  then show ?thesis
    by (simp add: PathCombinations_panics backend_panics_def Let_def split: BaseHandler.split outcome.split)
next
  case (GoWasm hostPath f)
  then show ?thesis
    by (auto simp: Handler_ServeHTTP_def GoWasm_serve_def assets_Open_def Let_def)
next
  case (Tail f whence)
  then show ?thesis
    by (simp add: Handler_ServeHTTP_def Tail_serve_def site_backends_def is_ok_def split: sum.splits)
qed

lemma URL_String_scheme: "Scheme t \<noteq> [] \<Longrightarrow> HasPrefix (URL_String t) (Scheme t @ '':'')"
  unfolding URL_String_def Let_def by (simp add: HasPrefix_prefix del: append.simps)

text \<open>
  C10. A server without Go WebAssembly and tailing targets answers every request that its backends answer. Whatever has been configured, accepted or
  refused before: when none of the current targets has one of these schemes, every request is answered and the router keeps its
  invariant, unless an \<open>http\<close> or \<open>https\<close> target is configured and forwarding to it panics, or a \<open>php\<close> target is and the FastCGI handler
  panics. A server of files, buckets, SFTP directories and redirects answers every request.
\<close>

theorem server_answers_every_request:
  assumes "holds os es s" "built os s" "length es < 2 ^ 32"
    and "\<forall>e \<in> set es. \<forall>scheme \<in> {''go-wasm:'', ''tail:'', ''tail-new:''}. \<not> HasPrefix (URL_String (ce_Target e)) scheme"
  shows "(\<exists>w' s'. Server_ServeHTTP (site_backends os st be) s w r = Ret (w', s') \<and> wf_mux (sv_mux s')) \<or>
    (\<exists>e \<in> set es. \<exists>r' h'. HasPrefix (URL_String (ce_Target e)) ''http'' \<and> be_RoundTrip be r' h' = Panic) \<or>
    (\<exists>e \<in> set es. \<exists>session client r' h'. HasPrefix (URL_String (ce_Target e)) ''php:'' \<and> be_PHP be session client r' h' = Panic)"
proof -
  let ?q = "r_Host r @ Path (r_URL r)" and ?be = "site_backends os st be"
  have wf: "wf_mux (sv_mux s)" using assms(1) by (simp add: holds_def)
  have srv: "serving (sv_mux s)" by (rule holds_serving [OF assms(1-3)])
  show ?thesis
  proof (cases "route (sv_mux s) ?q")
    case None
    then have "Mux_Handler (sv_mux s) ?q = Ret (None, sv_mux s)" by (rule Handler_no_route [OF wf srv])
    with wf show ?thesis by (simp add: Server_ServeHTTP_def)
  next
    case (Some p)
    with wf srv obtain x m where x: "x \<in> set (table (sv_mux s) p)" "Mux_Handler (sv_mux s) ?q = Ret (mh_handler x, m)"
      by (rule Handler_from_table)
    from assms(1,2) x(1) obtain e t h where e: "e \<in> set (accepted os (sv_factory s) es)" "URL_String t = URL_String (ce_Target e)"
      and h: "mh_handler x = Some h" "HandlerFactory_Handler os (sv_factory s) p t = Inr h" by (rule holds_built_entry)
    have es: "e \<in> set es" using e(1) by (simp add: accepted_def)
    have "Scheme t \<notin> {''go-wasm'', ''tail'', ''tail-new''}"
      using assms(4) es e(2) URL_String_scheme [of t] by auto
    then obtain b hostname hostPath targetPath where b: "h = PathCombinations b hostname hostPath targetPath"
      using built_handler_of [OF h(2)] by (cases h) (auto split: Whence.splits)
    let ?h = "fst (updateHeaders (sv_config s) (w_Header w) r)" and ?r = "snd (updateHeaders (sv_config s) (w_Header w) r)"
    show ?thesis
    proof (cases "Handler_ServeHTTP ?be h (w\<lparr>w_Header := ?h\<rparr>) ?r")
      case (Ret w')
      with x(2) h(1) wf_Handler [OF wf x(2)] show ?thesis by (simp add: Server_ServeHTTP_def Let_def case_prod_beta)
    next
      case Panic
      then have "backend_panics be b (?r\<lparr>r_URL := stripHostPath hostPath (r_URL ?r)\<rparr>) ?h"
        by (simp add: b PathCombinations_panics)
      with built_handler_of [OF h(2)] show ?thesis
        using es URL_String_scheme [of t]
        by (cases b) (fastforce simp: b e(2) backend_panics_def HasPrefix_prefix prefix_def split: outcome.splits)+
    qed
  qed
qed

theorem server_answers_every_request_witness:
  "\<exists>w' s'. Server_ServeHTTP (site_backends empty_OS example_storage idle_backends)
     (ProcessEvents empty_OS (toEvents [plain_entry ''a.com'' ''x''] True) empty_server) Response_zero (get_request ''a.com'' ''/'') = Ret (w', s')"
proof -
  have u: "URL_String (ce_Target (plain_entry ''a.com'' ''x'')) = ''http://x''" by code_simp
  have be: "be_RoundTrip idle_backends r' h' \<noteq> Panic" "be_PHP idle_backends session client r' h' \<noteq> Panic" for r' h' session client
    by (simp_all add: idle_backends_def)
  have "\<forall>e \<in> set [plain_entry ''a.com'' ''x'']. \<forall>scheme \<in> {''go-wasm:'', ''tail:'', ''tail-new:''}. \<not> HasPrefix (URL_String (ce_Target e)) scheme"
    using u by simp
  from server_answers_every_request [OF one_entry_server _ this] be show ?thesis by (simp del: ProcessEvents_simps) blast
qed

section \<open>Links of a listing\<close>

lemma rewritten_path:
  assumes "plain_host_path hostPath" "HasPrefix t ''/''" "\<not> HasPrefix t ''//''" "list_all path_char t" "unescape t encodePath = Inr p"
    and "\<not> HasPrefix p ''//''"
  shows "\<exists>u. URL_Parse (updateLocation t hostname hostPath []) = Inr u \<and> Host u = [] \<and> RawQuery u = [] \<and> Path (stripHostPath hostPath u) = p"
proof -
  obtain u0 where u0: "URL_Parse t = Inr u0" "Host u0 = []" using URL_Parse_path [OF assms(2-5)] by blast
  obtain t' where t: "t = CHR ''/'' # t'" using assms(2) by (auto simp: HasPrefix_slash)
  obtain p' where p: "p = CHR ''/'' # p'" "unescape t' encodePath = Inr p'"
    using unescape_slash_Cons [OF assms(5,2)] t by auto
  have host: "hostPath = [] \<or> HasPrefix hostPath ''/''" "\<not> HasPrefix hostPath ''//''" "list_all path_char hostPath"
    "unescape hostPath encodePath = Inr hostPath"
    using assms(1) unescape_plain by (simp_all add: plain_host_path_def)
  define loc where "loc = join_slash hostPath t"
  have loc: "updateLocation t hostname hostPath [] = loc"
    using u0 assms(2) by (simp add: updateLocation_def TrimPrefix_def loc_def)
  have "unescape loc encodePath = Inr (join_slash hostPath p)"
    using assms(5) p host(4) by (simp add: loc_def join_slash_def t unescape_append)
  moreover have "HasPrefix loc ''/''" "list_all path_char loc"
    using host(1,3) assms(4) by (auto simp: loc_def join_slash_def t HasPrefix_slash HasSuffix_single)
  moreover have "\<not> HasPrefix loc ''//''"
    using host(1,2) assms(3) by (cases hostPath; cases "tl hostPath") (auto simp: loc_def join_slash_def t HasSuffix_single)
  ultimately obtain u where u: "URL_Parse loc = Inr u" "Host u = []" "RawQuery u = []" "Path u = join_slash hostPath p"
    using URL_Parse_path [of loc] by blast
  have "Path (stripHostPath hostPath u) = p"
    using TrimPrefix_join_slash [OF assms(6), of hostPath] p(1) by (simp add: stripHostPath_Path u(4))
  with u loc show ?thesis by auto
qed

text \<open>
  C17. The link of an entry leads back to it through the site. For names without question marks, hashes and percent signs, whatever
  other bytes they are made of, the entry of a file in a directory has a link in its row. Undone of the escaping for the attribute,
  rewritten under the site's host path as every link of a page, parsed when it is requested and stripped of the host path, it is the
  path of the file, which cleaning does not change, without host and query.
\<close>

theorem listing_link_round_trip:
  assumes "\<forall>s \<in> set (segs @ [fi_Name fi]). plain_seg s \<and> link_safe s" "plain_host_path hostPath"
  shows "\<exists>e target u. newFsEntry fi (CHR ''/'' # Join segs ''/'') = Ret e \<and>
    fsTemplate_row e ! 3 = htmlescaper target \<and> URL_Parse (updateLocation target hostname hostPath []) = Inr u \<and>
    Host u = [] \<and> RawQuery u = [] \<and> Clean (Path (stripHostPath hostPath u)) = CHR ''/'' # Join (segs @ [fi_Name fi]) ''/''"
proof -
  obtain e target where e: "newFsEntry fi (CHR ''/'' # Join segs ''/'') = Ret e" "fsTemplate_row e ! 3 = htmlescaper target"
    and t: "HasPrefix target ''/''" "\<not> HasPrefix target ''//''" "list_all path_char target"
      "unescape target encodePath = Inr (CHR ''/'' # Join (segs @ [fi_Name fi]) ''/'')"
    using newFsEntry_link [OF assms(1)] by blast
  have plain: "\<forall>s \<in> set (segs @ [fi_Name fi]). plain_seg s" using assms(1) by simp
  have "\<not> HasPrefix (CHR ''/'' # Join (segs @ [fi_Name fi]) ''/'') ''//''"
    using plain_path_single_slash [OF plain] by simp
  from rewritten_path [OF assms(2) t this, of hostname] e Clean_plain [OF plain] show ?thesis by metis
qed

theorem listing_link_round_trip_witness:
  "\<exists>e target u. newFsEntry \<lparr>fi_Name = ''a&b.txt'', fi_Size = 7, fi_IsDir = False, fi_Modified = [], fi_Sys = None\<rparr> ''/my docs'' = Ret e \<and>
     fsTemplate_row e ! 3 = htmlescaper target \<and> URL_Parse (updateLocation target ''a.com'' ''/files'' []) = Inr u \<and>
     Clean (Path (stripHostPath ''/files'' u)) = ''/my docs/a&b.txt''"
proof -
  let ?fi = "\<lparr>fi_Name = ''a&b.txt'', fi_Size = 7, fi_IsDir = False, fi_Modified = [], fi_Sys = None\<rparr>"
  have "plain_host_path ''/files''" by code_simp
  then have "\<exists>e target u. newFsEntry ?fi (CHR ''/'' # Join [''my docs''] ''/'') = Ret e \<and>
    fsTemplate_row e ! 3 = htmlescaper target \<and> URL_Parse (updateLocation target ''a.com'' ''/files'' []) = Inr u \<and>
    Host u = [] \<and> RawQuery u = [] \<and> Clean (Path (stripHostPath ''/files'' u)) = CHR ''/'' # Join ([''my docs''] @ [fi_Name ?fi]) ''/''"
    by (intro listing_link_round_trip) (auto simp: plain_seg_def link_safe_def)
  then show ?thesis by (simp del: URL.simps) blast
qed

end
