(* ===== verification/Logger.thy ===== *)
theory Logger
  imports Util
begin

text \<open>
  The logging middleware, \<open>src/pkg/logger/logger.go\<close>. A wrapped handler is a program that reads the request body and
  performs operations on the response writer, each depending on what it has read so far; it is run on the body and
  the writer themselves, or on the counting ones that the middleware puts around them. The parsed user agent (a vendored package) and
  the elapsed time are parameters.
\<close>

section \<open>Handlers as programs\<close>

text \<open>\<open>ReadBody n k\<close> reads with a buffer of \<open>n\<close> bytes and goes on with the bytes it got; \<open>LookHeader k\<close> goes on with the headers of the
  response writer; \<open>Abort\<close> is a panic.\<close>

datatype handler_prog =
    Done
  | Abort
  | Perform writer_op handler_prog
  | LookHeader "Header \<Rightarrow> handler_prog"
  | ReadBody nat "string \<Rightarrow> handler_prog"

text \<open>A run on a body and a response writer: whether it returned, the response, and the rest of the body.\<close>

primrec run_plain :: "handler_prog \<Rightarrow> string \<Rightarrow> Response \<Rightarrow> bool \<times> Response \<times> string" where
  "run_plain Done body w = (True, w, body)"
| "run_plain Abort body w = (False, w, body)"
| "run_plain (Perform x p) body w = run_plain p body (plain_exec x w)"
| "run_plain (LookHeader k) body w = run_plain (k (w_Header w)) body w"
| "run_plain (ReadBody n k) body w = run_plain (k (take n body)) (drop n body) w"

primrec run_counted :: "handler_prog \<Rightarrow> ReadCloserCounter \<Rightarrow> ResponseWriterCounter \<Rightarrow> bool \<times> ResponseWriterCounter \<times> ReadCloserCounter" where
  "run_counted Done rc wc = (True, wc, rc)"
| "run_counted Abort rc wc = (False, wc, rc)"
| "run_counted (Perform x p) rc wc = run_counted p rc (counter_exec x wc)"
| "run_counted (LookHeader k) rc wc = run_counted (k (w_Header (rwc_ResponseWriter wc))) rc wc"
| "run_counted (ReadBody n k) rc wc = (let (buf, rc') = ReadCloserCounter_Read n rc in run_counted (k buf) rc' wc)"

section \<open>The middleware\<close>

definition hex8 :: "32 word \<Rightarrow> string" where
  "hex8 w = map (\<lambda>i. hex_digit (unat w div 16 ^ (7 - i) mod 16)) [0..<8]"

definition byteCount :: "int \<Rightarrow> string" where
  "byteCount n = (case ByteCountIEC n of Panic \<Rightarrow> [] | Ret s \<Rightarrow> s)"

definition beginLine :: "(string \<Rightarrow> string \<times> string \<times> string) \<Rightarrow> 32 word \<Rightarrow> Request \<Rightarrow> string" where
  "beginLine ua reqId r =
     (let (os, browser, ver) = ua (Header_Get (r_Header r) ''User-Agent'') in
      ''#'' @ hex8 reqId @ '' BEGIN - '' @ r_Method r @ '' '' @ r_Host r @ RequestURI (r_URL r) @ '' - '' @
      r_RemoteAddr r @ '' ('' @ os @ '' '' @ browser @ '' '' @ ver @ '')'')"

definition endLine :: "32 word \<Rightarrow> int \<Rightarrow> int \<Rightarrow> string \<Rightarrow> string" where
  "endLine reqId rcount wcount elapsed =
     ''#'' @ hex8 reqId @ '' END - request: '' @ byteCount rcount @ '' - response: '' @ byteCount wcount @
     '' - elapsed: '' @ elapsed @ '' sec''"

text \<open>The wrapped handler gets the request with its body replaced by the counting reader: it reaches the bytes only by reading.\<close>

definition serve_plain :: "(Request \<Rightarrow> handler_prog) \<Rightarrow> Response \<Rightarrow> Request \<Rightarrow> bool \<times> Response \<times> string" where
  "serve_plain handler w r = run_plain (handler (r\<lparr>r_Body := []\<rparr>)) (r_Body r) w"

record Logged =
  lg_returned :: bool
  lg_response :: Response
  lg_rest :: string
  lg_counter :: "32 word"
  lg_lines :: "string list"

definition LoggerMiddleware ::
  "(string \<Rightarrow> string \<times> string \<times> string) \<Rightarrow> string \<Rightarrow> (Request \<Rightarrow> handler_prog) \<Rightarrow> 32 word \<Rightarrow> Response \<Rightarrow> Request \<Rightarrow> Logged" where
  "LoggerMiddleware ua elapsed handler counter w r =
     (if HasSuffix (Path (r_URL r)) ''/favicon.ico'' then
        (let (returned, w', rest) = serve_plain handler w r
         in \<lparr>lg_returned = returned, lg_response = w', lg_rest = rest, lg_counter = counter, lg_lines = []\<rparr>)
      else
        (let reqId = counter + 1;
             (returned, wcount, rcount) =
               run_counted (handler (r\<lparr>r_Body := []\<rparr>)) (NewReadCloserCounter (r_Body r)) (NewResponseWriterCounter w)
         in \<lparr>lg_returned = returned, lg_response = rwc_ResponseWriter wcount, lg_rest = rcc_ReadCloser rcount, lg_counter = reqId,
             lg_lines = beginLine ua reqId r #
               (if returned then [endLine reqId (ReadCloserCounter_Count rcount) (ResponseWriterCounter_Count wcount) elapsed] else [])\<rparr>))"

section \<open>Counting programs\<close>

text \<open>A counting reader and writer against the body they started with: what is left and how much was counted.\<close>

definition counts :: "string \<Rightarrow> nat \<Rightarrow> ReadCloserCounter \<Rightarrow> ResponseWriterCounter \<Rightarrow> bool" where
  "counts body n rc wc \<longleftrightarrow>
     rcc_count rc = wrap64 (int (length body) - int (length (rcc_ReadCloser rc))) \<and>
     rwc_count wc = wrap64 (int (length (w_Body (rwc_ResponseWriter wc))) - int n)"

lemma counts_new: "counts body (length (w_Body w)) (NewReadCloserCounter body) (NewResponseWriterCounter w)"
  by (simp add: counts_def NewReadCloserCounter_def NewResponseWriterCounter_def wrap64_def)

lemma counts_exec: "counts body n rc wc \<Longrightarrow> counts body n rc (counter_exec x wc)"
  using counter_exec_count [of wc "int (length (w_Body (rwc_ResponseWriter wc))) - int n" x]
  by (simp add: counts_def counter_exec_exec counting.inner_exec algebra_simps)

lemma counts_read: "counts body n rc wc \<Longrightarrow> counts body n (snd (ReadCloserCounter_Read k rc)) wc"
  by (simp add: counts_def ReadCloserCounter_Read_def wrap64_add Let_def) (simp add: algebra_simps min_def of_nat_diff)

lemma run_counted_plain:
  assumes "run_plain p (rcc_ReadCloser rc) (rwc_ResponseWriter wc) = (returned, w', rest)" "counts body n rc wc"
  shows "\<exists>wc' rc'. run_counted p rc wc = (returned, wc', rc') \<and> rwc_ResponseWriter wc' = w' \<and> rcc_ReadCloser rc' = rest \<and> counts body n rc' wc'"
  using assms
proof (induction p arbitrary: rc wc)
  case (Perform x p)
  have "rwc_ResponseWriter (counter_exec x wc) = plain_exec x (rwc_ResponseWriter wc)"
    by (simp add: counter_exec_exec counting.inner_exec)
  then show ?case using Perform.IH [of rc "counter_exec x wc"] Perform.prems counts_exec by simp
next
  case (ReadBody k f)
  have "fst (ReadCloserCounter_Read k rc) = take k (rcc_ReadCloser rc)"
    "rcc_ReadCloser (snd (ReadCloserCounter_Read k rc)) = drop k (rcc_ReadCloser rc)"
    by (simp_all add: ReadCloserCounter_Read_def Let_def)
  then show ?case
    using ReadBody.IH [OF rangeI, of "take k (rcc_ReadCloser rc)" "snd (ReadCloserCounter_Read k rc)" wc] ReadBody.prems counts_read
    by (simp add: case_prod_beta)
next
  case (LookHeader f)
  then show ?case using LookHeader.IH [OF rangeI] by simp
qed auto

lemma run_plain_grows:
  "run_plain p body w = (returned, w', rest) \<Longrightarrow> length rest \<le> length body \<and> length (w_Body w) \<le> length (w_Body w')"
proof (induction p arbitrary: body w)
  case (Perform x p)
  then show ?case using plain_exec_grows [of w x] by fastforce
next
  case (ReadBody n k)
  from ReadBody.IH [OF rangeI ReadBody.prems [unfolded run_plain.simps]] show ?case by auto
next
  case (LookHeader k)
  from LookHeader.IH [OF rangeI LookHeader.prems [unfolded run_plain.simps]] show ?case .
qed auto

lemma logged:
  assumes "serve_plain handler w r = (returned, w', rest)" "length (r_Body r) < 2 ^ 63" "length (w_Body w') < 2 ^ 63"
    and "\<not> HasSuffix (Path (r_URL r)) ''/favicon.ico''"
  shows "LoggerMiddleware ua elapsed handler c w r =
    \<lparr>lg_returned = returned, lg_response = w', lg_rest = rest, lg_counter = c + 1,
     lg_lines = beginLine ua (c + 1) r #
       (if returned
        then [endLine (c + 1) (int (length (r_Body r) - length rest)) (int (length (w_Body w') - length (w_Body w))) elapsed] else [])\<rparr>"
proof -
  note plain = assms(1) [unfolded serve_plain_def]
  have "run_plain (handler (r\<lparr>r_Body := []\<rparr>)) (rcc_ReadCloser (NewReadCloserCounter (r_Body r)))
      (rwc_ResponseWriter (NewResponseWriterCounter w)) = (returned, w', rest)"
    using plain by (simp add: NewReadCloserCounter_def NewResponseWriterCounter_def)
  from run_counted_plain [OF this counts_new] obtain wc rc
    where run: "run_counted (handler (r\<lparr>r_Body := []\<rparr>)) (NewReadCloserCounter (r_Body r)) (NewResponseWriterCounter w) = (returned, wc, rc)"
      and inner: "rwc_ResponseWriter wc = w'" "rcc_ReadCloser rc = rest" and c: "counts (r_Body r) (length (w_Body w)) rc wc" by blast
  note le = run_plain_grows [OF plain]
  have "rcc_count rc = int (length (r_Body r) - length rest)" "rwc_count wc = int (length (w_Body w') - length (w_Body w))"
    using c inner le assms(2,3) by (simp_all add: counts_def wrap64_id int64_def of_nat_diff)
  with run inner assms(4) show ?thesis
    by (simp add: LoggerMiddleware_def Let_def ReadCloserCounter_Count_def ResponseWriterCounter_Count_def)
qed

text \<open>
  C33. Logging does not change what is served, and logs what was served. Whatever a handler does, depending on what it reads, it gets the
  same bytes of the body, produces the same response and returns or panics as it would without the middleware. A request for a \<open>favicon.ico\<close> is
  not logged; any other gets the next id, a line when it begins and, if the handler returns, a line with the exact numbers of body bytes
  that were read and of response bytes that were written (bodies below \<open>2^63\<close> bytes).
\<close>

theorem LoggerMiddleware_transparent:
  assumes "serve_plain handler w r = (returned, w', rest)" "length (r_Body r) < 2 ^ 63" "length (w_Body w') < 2 ^ 63"
  shows "LoggerMiddleware ua elapsed handler c w r =
    (if HasSuffix (Path (r_URL r)) ''/favicon.ico''
     then \<lparr>lg_returned = returned, lg_response = w', lg_rest = rest, lg_counter = c, lg_lines = []\<rparr>
     else \<lparr>lg_returned = returned, lg_response = w', lg_rest = rest, lg_counter = c + 1,
       lg_lines = beginLine ua (c + 1) r #
         (if returned
          then [endLine (c + 1) (int (length (r_Body r) - length rest)) (int (length (w_Body w') - length (w_Body w))) elapsed] else [])\<rparr>)"
proof (cases "HasSuffix (Path (r_URL r)) ''/favicon.ico''")
  case True
  then show ?thesis using assms(1) by (simp add: LoggerMiddleware_def)
next
  case False
  then show ?thesis using logged [OF assms] by simp
qed

text \<open>A handler that echoes the first bytes of the body and then writes their number of stars.\<close>

definition echo_handler :: "Request \<Rightarrow> handler_prog" where
  "echo_handler r = ReadBody 3 (\<lambda>s. Perform (OpWrite s) (Perform (OpWrite (map (\<lambda>_. CHR ''*'') s)) Done))"

definition echo_request :: Request where
  "echo_request = \<lparr>r_Method = ''POST'', r_Host = ''a.com'', r_URL = URL_zero\<lparr>Path := ''/x''\<rparr>, r_Header = no_headers, r_RemoteAddr = ''10.0.0.1:1'',
     r_Body = ''abcd''\<rparr>"

theorem LoggerMiddleware_transparent_witness:
  "w_Body (lg_response (LoggerMiddleware (\<lambda>_. ([], [], [])) ''0.1'' echo_handler 6 Response_zero echo_request)) = ''abc***'' \<and>
   lg_lines (LoggerMiddleware (\<lambda>_. ([], [], [])) ''0.1'' echo_handler 6 Response_zero echo_request) ! 1 = endLine 7 3 6 ''0.1''"
proof -
  have run: "serve_plain echo_handler Response_zero echo_request =
      (True, Write (Write Response_zero ''abc'') ''***'', ''d'')" by (simp add: serve_plain_def echo_handler_def echo_request_def)
  have b: "w_Body (Write (Write Response_zero ''abc'') ''***'') = ''abc***''" by (simp add: body_simps Response_zero_def)
  have p: "\<not> HasSuffix (Path (r_URL echo_request)) ''/favicon.ico''" by code_simp
  from LoggerMiddleware_transparent [OF run, of "\<lambda>_. ([], [], [])" "''0.1''" 6] show ?thesis
    using p b by (simp add: echo_request_def Response_zero_def)
qed

section \<open>Request ids\<close>

text \<open>Requests one after the other.\<close>

fun log_requests ::
  "(string \<Rightarrow> string \<times> string \<times> string) \<Rightarrow> string \<Rightarrow> (Request \<Rightarrow> handler_prog) \<Rightarrow> 32 word \<Rightarrow> Request list \<Rightarrow> 32 word list" where
  "log_requests ua elapsed handler counter [] = []"
| "log_requests ua elapsed handler counter (r # rs) =
     (let l = LoggerMiddleware ua elapsed handler counter Response_zero r
      in (if lg_lines l = [] then [] else [lg_counter l]) @ log_requests ua elapsed handler (lg_counter l) rs)"

lemma LoggerMiddleware_counter:
  "lg_counter (LoggerMiddleware ua elapsed handler c w r) = (if HasSuffix (Path (r_URL r)) ''/favicon.ico'' then c else c + 1)"
  "lg_lines (LoggerMiddleware ua elapsed handler c w r) = [] \<longleftrightarrow> HasSuffix (Path (r_URL r)) ''/favicon.ico''"
  by (simp_all add: LoggerMiddleware_def Let_def case_prod_beta)

lemma log_requests_ids:
  "log_requests ua elapsed handler c rs =
     map (\<lambda>i. c + 1 + word_of_nat i) [0..<length (filter (\<lambda>r. \<not> HasSuffix (Path (r_URL r)) ''/favicon.ico'') rs)]"
proof (induction rs arbitrary: c)
  case (Cons r rs)
  show ?case
  proof (cases "HasSuffix (Path (r_URL r)) ''/favicon.ico''")
    case True
    then show ?thesis using Cons by (simp add: LoggerMiddleware_counter Let_def)
  next
    case False
    then show ?thesis
      using Cons [of "c + 1"]
      by (simp add: LoggerMiddleware_counter Let_def upt_conv_Cons map_Suc_upt [symmetric] add.assoc del: upt_Suc)
  qed
qed simp

text \<open>
  Request ids identify requests: the ids of up to \<open>2^32\<close> logged requests are distinct.
\<close>
theorem request_ids_distinct:
  assumes "length rs \<le> 2 ^ 32"
  shows "distinct (log_requests ua elapsed handler c rs)"
proof -
  let ?n = "length (filter (\<lambda>r. \<not> HasSuffix (Path (r_URL r)) ''/favicon.ico'') rs)"
  have "?n \<le> 2 ^ 32" using assms length_filter_le order_trans by blast
  then have "inj_on (\<lambda>i. c + 1 + word_of_nat i :: 32 word) (set [0..<?n])"
    by (auto simp: inj_on_def word_of_nat_eq_iff take_bit_nat_eq_self)
  then show ?thesis by (simp add: log_requests_ids distinct_map)
qed

end
