(* ===== verification/Progress.thy ===== *)
theory Progress
  imports Main
begin

text \<open>
  Goroutines that have to come to an end together: a step relation with an invariant, a measure that every step decreases,
  and progress as long as the final states are not reached. Then every run ends, and it ends in a final state.
\<close>

locale progress =
  fixes step :: "'s \<Rightarrow> 's \<Rightarrow> bool"
    and inv :: "'s \<Rightarrow> bool"
    and work :: "'s \<Rightarrow> nat"
    and final :: "'s \<Rightarrow> bool"
  assumes inv_step: "step s s' \<Longrightarrow> inv s \<Longrightarrow> inv s'"
    and work_step: "step s s' \<Longrightarrow> inv s \<Longrightarrow> work s' < work s"
    and not_stuck: "inv s \<Longrightarrow> \<not> final s \<Longrightarrow> \<exists>s'. step s s'"
    and final_stuck: "inv s \<Longrightarrow> final s \<Longrightarrow> \<not> step s s'"
begin

lemma inv_steps: "step\<^sup>*\<^sup>* s s' \<Longrightarrow> inv s \<Longrightarrow> inv s'"
  by (induction rule: rtranclp_induct) (auto intro: inv_step)

lemma stuck_iff: "inv s \<Longrightarrow> (\<forall>s'. \<not> step s s') \<longleftrightarrow> final s"
  using not_stuck final_stuck by blast

text \<open>No run is longer than the work of the state it starts in.\<close>

lemma run_length:
  assumes "(step ^^ n) s s'" "inv s"
  shows "n + work s' \<le> work s \<and> inv s'"
  using assms
proof (induction n arbitrary: s')
  case (Suc n)
  then obtain t where t: "(step ^^ n) s t" "step t s'" by auto
  with Suc have "n + work t \<le> work s" "inv t" by simp_all
  with work_step [OF t(2)] inv_step [OF t(2)] show ?case by fastforce
qed simp

text \<open>Every state from which no final state has been reached can be continued to one.\<close>

lemma ends: "inv s \<Longrightarrow> \<exists>s'. step\<^sup>*\<^sup>* s s' \<and> final s'"
proof (induction "work s" arbitrary: s rule: less_induct)
  case less
  show ?case
  proof (cases "final s")
    case False
    with less.prems obtain t where t: "step s t" using not_stuck by blast
    with less.prems less.hyps [of t] obtain s' where "step\<^sup>*\<^sup>* t s'" "final s'"
      using work_step inv_step by blast
    with t show ?thesis by (meson converse_rtranclp_into_rtranclp)
  qed auto
qed

end

end
