(* ===== verification/Pipe.thy ===== *)
theory Pipe
  imports Stream Progress
begin

text \<open>
  The two goroutines behind the response writer of \<open>src/pkg/stream/pathprefixwriter.go\<close>. The handler writes an HTML body
  to an unbuffered \<open>io.Pipe\<close> and finally calls \<open>Close\<close>; a goroutine copies from the pipe, through the streamer,
  to the client. A write to the pipe returns only when the reader has taken all of it, and
  \<open>Close\<close> waits for the copying goroutine. The copying ends at the end of the stream or when the client does
  not take what is written to it.
\<close>

section \<open>The state and its steps\<close>

datatype handler_phase = Running | Waiting | Returned

text \<open>\<open>pp_todo\<close> are the writes the handler has still to make, \<open>pp_write\<close> the rest of the write it is in; \<open>pp_copying\<close> says
  whether the copying goroutine runs, and \<open>pp_taken\<close> what it has read.\<close>

record PipeState =
  pp_todo :: "string list"
  pp_write :: "string option"
  pp_phase :: handler_phase
  pp_copying :: bool
  pp_taken :: string

definition pipe_start :: "string list \<Rightarrow> PipeState" where
  "pipe_start body = \<lparr>pp_todo = body, pp_write = None, pp_phase = Running, pp_copying = True, pp_taken = []\<rparr>"

text \<open>A reader takes as much of a write as fits its buffer, at least one byte unless the write is empty.\<close>

definition pipe_take :: "nat \<Rightarrow> string \<Rightarrow> PipeState \<Rightarrow> PipeState" where
  "pipe_take n p s =
     s\<lparr>pp_write := (if drop n p = [] then None else Some (drop n p)), pp_taken := pp_taken s @ take n p\<rparr>"

inductive pipe_step :: "bool \<Rightarrow> PipeState \<Rightarrow> PipeState \<Rightarrow> bool" for failing :: bool where
  put: "pp_phase s = Running \<Longrightarrow> pp_write s = None \<Longrightarrow> pp_todo s = p # ps \<Longrightarrow>
    pipe_step failing s (s\<lparr>pp_todo := ps, pp_write := Some p\<rparr>)"
| get: "pp_copying s \<Longrightarrow> pp_write s = Some p \<Longrightarrow> 0 < n \<Longrightarrow> pipe_step failing s (pipe_take n p s)"
| fail: "failing \<Longrightarrow> pp_copying s \<Longrightarrow> pp_taken s \<noteq> [] \<Longrightarrow> pipe_step failing s (s\<lparr>pp_copying := False\<rparr>)"
| close: "pp_phase s = Running \<Longrightarrow> pp_write s = None \<Longrightarrow> pp_todo s = [] \<Longrightarrow>
    pipe_step failing s (s\<lparr>pp_phase := Waiting\<rparr>)"
| eof: "pp_phase s = Waiting \<Longrightarrow> pp_copying s \<Longrightarrow> pp_write s = None \<Longrightarrow> pipe_step failing s (s\<lparr>pp_copying := False\<rparr>)"
| waited: "pp_phase s = Waiting \<Longrightarrow> \<not> pp_copying s \<Longrightarrow> pipe_step failing s (s\<lparr>pp_phase := Returned\<rparr>)"

inductive_cases pipe_stepE: "pipe_step failing s s'"

definition pipe_steps :: "bool \<Rightarrow> PipeState \<Rightarrow> PipeState \<Rightarrow> bool" where
  "pipe_steps failing = (pipe_step failing)\<^sup>*\<^sup>*"

section \<open>A client that takes everything\<close>

text \<open>What is taken, being written and still to be written is the body; the copying only ends after \<open>Close\<close>.\<close>

definition pipe_inv :: "string list \<Rightarrow> PipeState \<Rightarrow> bool" where
  "pipe_inv body s \<longleftrightarrow>
     pp_taken s @ (case pp_write s of None \<Rightarrow> [] | Some p \<Rightarrow> p) @ concat (pp_todo s) = concat body \<and>
     (pp_phase s \<noteq> Running \<longrightarrow> pp_write s = None \<and> pp_todo s = []) \<and>
     (pp_phase s = Running \<longrightarrow> pp_copying s) \<and> (pp_phase s = Returned \<longrightarrow> \<not> pp_copying s)"

lemma pipe_inv_start: "pipe_inv body (pipe_start body)"
  by (simp add: pipe_inv_def pipe_start_def)

lemma take_drop_append: "take n xs @ drop n xs @ ys = xs @ ys"
  by (metis append_assoc append_take_drop_id)

lemma pipe_inv_step: "pipe_step False s s' \<Longrightarrow> pipe_inv body s \<Longrightarrow> pipe_inv body s'"
  by (erule pipe_stepE) (auto simp: pipe_inv_def pipe_take_def take_drop_append)

text \<open>Every step makes progress in this measure, so no run goes on for ever.\<close>

definition pipe_work :: "PipeState \<Rightarrow> nat" where
  "pipe_work s = sum_list (map (\<lambda>p. length p + 2) (pp_todo s)) +
     (case pp_write s of None \<Rightarrow> 0 | Some p \<Rightarrow> length p + 1) +
     (case pp_phase s of Running \<Rightarrow> 2 | Waiting \<Rightarrow> 1 | Returned \<Rightarrow> 0) + (if pp_copying s then 1 else 0)"

lemma pipe_work_step: "pipe_step failing s s' \<Longrightarrow> pipe_work s' < pipe_work s"
  by (erule pipe_stepE) (auto simp: pipe_work_def pipe_take_def)

lemma pipe_progress:
  assumes "pipe_inv body s" "pp_phase s \<noteq> Returned"
  shows "\<exists>s'. pipe_step False s s'"
proof (cases "pp_phase s")
  case Running
  then have "pp_copying s" using assms(1) by (simp add: pipe_inv_def)
  with Running show ?thesis
    by (cases "pp_write s"; cases "pp_todo s") (blast intro: pipe_step.intros zero_less_one)+
next
  case Waiting
  then have "pp_write s = None" using assms(1) by (simp add: pipe_inv_def)
  with Waiting show ?thesis by (cases "pp_copying s") (blast intro: pipe_step.intros)+
qed (use assms(2) in simp)

interpretation pipe: progress "pipe_step False" "pipe_inv body" pipe_work "\<lambda>s. pp_phase s = Returned" for body
proof
  show "pipe_inv body s'" if "pipe_step False s s'" "pipe_inv body s" for s s' using that by (rule pipe_inv_step)
  show "pipe_work s' < pipe_work s" if "pipe_step False s s'" for s s' using that by (rule pipe_work_step)
  show "\<exists>s'. pipe_step False s s'" if "pipe_inv body s" "pp_phase s \<noteq> Returned" for s using that by (rule pipe_progress)
  show "\<not> pipe_step False s s'" if "pipe_inv body s" "pp_phase s = Returned" for s s'
    using that by (auto simp: pipe_inv_def elim: pipe_stepE)
qed

text \<open>
  C14. With a client that takes what is sent to it, serving an HTML body never blocks: from every reachable state the two
  goroutines take only finitely many steps and can go on until \<open>Close\<close> has returned; there is no other state
  without a next step, and by then the copying goroutine has ended and the streamer has read the whole body.
\<close>

theorem pipe_delivers_body:
  assumes "pipe_steps False (pipe_start body) s"
  shows "(\<forall>n s'. (pipe_step False ^^ n) s s' \<longrightarrow> n \<le> pipe_work s) \<and>
    (\<exists>s'. pipe_steps False s s' \<and> pp_phase s' = Returned) \<and>
    ((\<forall>s'. \<not> pipe_step False s s') \<longleftrightarrow> pp_phase s = Returned) \<and>
    (pp_phase s = Returned \<longrightarrow> \<not> pp_copying s \<and> pp_taken s = concat body)"
proof -
  have inv: "pipe_inv body s" using assms pipe.inv_steps [OF _ pipe_inv_start] by (simp add: pipe_steps_def)
  have "\<not> pp_copying s \<and> pp_taken s = concat body" if "pp_phase s = Returned"
    using that inv by (auto simp: pipe_inv_def)
  with pipe.run_length [OF _ inv] pipe.ends [OF inv] pipe.stuck_iff [OF inv] show ?thesis
    unfolding pipe_steps_def by fastforce
qed

theorem pipe_delivers_body_witness:
  "\<exists>s. pipe_steps False (pipe_start [''hi'']) s \<and> pp_phase s = Returned \<and> pp_taken s = ''hi''"
proof -
  define s1 where "s1 = (pipe_start [''hi''])\<lparr>pp_todo := [], pp_write := Some ''hi''\<rparr>"
  define s2 where "s2 = pipe_take 2 ''hi'' s1"
  define s3 where "s3 = s2\<lparr>pp_phase := Waiting\<rparr>"
  define s4 where "s4 = s3\<lparr>pp_copying := False\<rparr>"
  define s5 where "s5 = s4\<lparr>pp_phase := Returned\<rparr>"
  have fields: "pp_phase s1 = Running" "pp_write s1 = Some ''hi''" "pp_copying s1"
    "pp_phase s2 = Running" "pp_write s2 = None" "pp_todo s2 = []" "pp_copying s2"
    by (simp_all add: s1_def s2_def pipe_start_def pipe_take_def)
  have "pipe_step False (pipe_start [''hi'']) s1" unfolding s1_def by (rule put) (simp_all add: pipe_start_def)
  moreover have "pipe_step False s1 s2" unfolding s2_def by (rule get) (simp_all add: fields)
  moreover have "pipe_step False s2 s3" unfolding s3_def by (rule close) (simp_all add: fields)
  moreover have "pipe_step False s3 s4" unfolding s4_def by (rule eof) (simp_all add: s3_def fields)
  moreover have "pipe_step False s4 s5" unfolding s5_def by (rule waited) (simp_all add: s3_def s4_def)
  ultimately have steps: "pipe_steps False (pipe_start [''hi'']) s5" unfolding pipe_steps_def by (meson converse_rtranclp_into_rtranclp rtranclp.rtrancl_refl)
  moreover have "pp_phase s5 = Returned" by (simp add: s5_def)
  ultimately show ?thesis using pipe_delivers_body [OF steps] by auto
qed

section \<open>A client that goes away\<close>

text \<open>The handler cannot return any more: nobody reads from the pipe, and it is in a write or has one to make.\<close>

definition hung :: "PipeState \<Rightarrow> bool" where
  "hung s \<longleftrightarrow> pp_phase s = Running \<and> \<not> pp_copying s \<and> (pp_write s \<noteq> None \<or> pp_todo s \<noteq> [])"

lemma hung_step: "pipe_step failing s s' \<Longrightarrow> hung s \<Longrightarrow> hung s'"
  by (erule pipe_stepE) (auto simp: hung_def)

lemma hung_for_ever: "pipe_steps failing s s' \<Longrightarrow> hung s \<Longrightarrow> hung s'"
  unfolding pipe_steps_def by (induction rule: rtranclp_induct) (auto intro: hung_step)



end
