(* ===== verification/Writers.thy ===== *)
theory Writers
  imports Prelude
begin

text \<open>
  What the stacked response writers can do besides writing: \<open>Flush\<close> and \<open>Hijack\<close> of
  \<open>src/pkg/util/responsewritercounter.go\<close> and \<open>src/pkg/stream/pathprefixwriter.go\<close>. Go finds out by a type assertion whether a
  writer has these methods; the writer of the network has \<open>Hijack\<close> for HTTP/1 and not for HTTP/2.
\<close>

datatype Writer =
    NetWriter bool
  | CounterWriter Writer
  | PathPrefixWriter Writer

text \<open>The type assertions \<open>w.(http.Flusher)\<close> and \<open>w.(http.Hijacker)\<close>.\<close>

fun is_Flusher :: "Writer \<Rightarrow> bool" where
  "is_Flusher (NetWriter http1) = True"
| "is_Flusher (CounterWriter w) = True"
| "is_Flusher (PathPrefixWriter w) = True"

fun is_Hijacker :: "Writer \<Rightarrow> bool" where
  "is_Hijacker (NetWriter http1) = http1"
| "is_Hijacker (CounterWriter w) = True"
| "is_Hijacker (PathPrefixWriter w) = False"

text \<open>\<open>Flush\<close> returns how often the writer of the network was flushed; \<open>Hijack\<close> returns the connection or panics in the
  type assertion of the counter.\<close>

fun Writer_Flush :: "Writer \<Rightarrow> nat" where
  "Writer_Flush (NetWriter http1) = 1"
| "Writer_Flush (CounterWriter w) = (if is_Flusher w then Writer_Flush w else 0)"
| "Writer_Flush (PathPrefixWriter w) = (if is_Flusher w then Writer_Flush w else 0)"

fun Writer_Hijack :: "Writer \<Rightarrow> unit outcome" where
  "Writer_Hijack (NetWriter http1) = (if http1 then Ret () else Panic)"
| "Writer_Hijack (CounterWriter w) = (if is_Hijacker w then Writer_Hijack w else Panic)"
| "Writer_Hijack (PathPrefixWriter w) = Panic"

text \<open>Flushing reaches the network through every stack of writers.\<close>

lemma is_Flusher_all [simp]: "is_Flusher w"
  by (cases w) simp_all

lemma Flush_reaches_network: "Writer_Flush w = 1"
  by (induction w) simp_all

text \<open>
  Switching protocols, as WebSockets need it, works exactly on a connection of HTTP/1 with nothing but counters around it: every
  handler behind the path prefix writer is told that it cannot hijack, and a counter around a writer of
  HTTP/2 or around a path prefix writer claims that it can and then panics.
\<close>

lemma Hijack_iff: "Writer_Hijack w = Ret () \<longleftrightarrow> (\<exists>n. w = (CounterWriter ^^ n) (NetWriter True))"
proof (induction w)
  case (NetWriter b)
  have "NetWriter b = (CounterWriter ^^ n) (NetWriter True) \<longleftrightarrow> n = 0 \<and> b" for n by (cases n) auto
  then show ?case by simp
next
  case (CounterWriter w)
  have "CounterWriter w = (CounterWriter ^^ n) (NetWriter True) \<longleftrightarrow> (\<exists>k. n = Suc k \<and> w = (CounterWriter ^^ k) (NetWriter True))" for n
    by (cases n) auto
  moreover have "Writer_Hijack w = Ret () \<Longrightarrow> is_Hijacker w" by (cases w) (auto split: if_splits)
  ultimately show ?case using CounterWriter by auto
next
  case (PathPrefixWriter w)
  have "PathPrefixWriter w \<noteq> (CounterWriter ^^ n) (NetWriter True)" for n by (cases n) auto
  then show ?case by simp
qed

end
