(* ===== verification/Spec2Isabelle.thy ===== *)
theory Spec2Isabelle
  imports Watching ConfigWatch Containers Main_Program Process Sites Logger Pipe Writers
begin

text \<open>
  A verification library for razvhost, a reverse proxy and virtual host server written in Go. The program reads a
  configuration file of lines \<open>hostnames -> targets\<close>, keeps a routing table from hostnames with paths
  to handlers, follows changes of the file and of the running Docker containers, and serves each request with the
  handler of the longest matching route.

  \<^bold>\<open>Parts of the program and the theories that model them.\<close>

  \<^item> \<open>src/pkg/mux\<close>: \<open>Mux\<close>, the router. Entries live in an explicit heap, because the slice \<open>entries\<close> and the map
    \<open>entryMap\<close> share them by pointer; \<open>Mux_Add\<close>, \<open>Mux_Remove\<close>, \<open>Mux_Handler\<close>, \<open>Mux_Contains\<close> and
    \<open>Mux_ContainsHost\<close> are the methods. The counter of an entry is a 32-bit word. \<open>RoutingTable\<close> states what a
    client relies on as the locale \<open>routing_table\<close>, interpreted on the router as \<open>router\<close>.
  \<^item> \<open>src/pkg/config/config.go\<close>: \<open>Config\<close>. Reading of lines and files, the computation of changes, and the watched file as a
    step relation \<open>config_step\<close> whose steps are the atomic parts of the goroutines (changes of the file, the watcher's loop, start,
    wake-up, read and commit of a reload task, send, delivery, close). \<open>ConfigWatch\<close> is about the loss of the watch.
  \<^item> \<open>src/pkg/config/dockerwatch.go\<close>: \<open>DockerWatch\<close>, containers to configuration events; \<open>Containers\<close> composes it with the watched file
    and the server. Every event of the daemon comes with the inspection that the watcher makes for it, and nothing is assumed of the inspections.
  \<^item> \<open>src/pkg/handler\<close>: \<open>Handlers\<close> (the factory, and what the handlers do with a request: path stripping, redirects,
    proxying, PHP, S3, Go WebAssembly, tailing), \<open>SftpFS\<close> (the SFTP file system with its connections and sessions) and \<open>Sites\<close>
    (the handlers with the file server behind them).
  \<^item> \<open>src/pkg/fileserver\<close>: \<open>FileServer\<close> (resolution of paths and links below a root, listings, the handler) and
    \<open>FileTemplate\<close> (the page of a listing with the escaping of \<open>html/template\<close>).
  \<^item> \<open>src/pkg/stream\<close>: \<open>Stream\<close> (the HTML streamer, the rewriting of locations, what the response writer sends) and
    \<open>Pipe\<close> (the handler and the copying goroutine around the pipe, as a step relation); \<open>Writers\<close> has the
    methods \<open>Flush\<close> and \<open>Hijack\<close> of the stacked response writers.
  \<^item> \<open>src/pkg/server\<close>: \<open>Server\<close>: configuration events, construction, requests, headers, the debug interface, which serves the sites below
    their host names. \<open>Server_answer\<close> is \<open>ServeHTTP\<close> on a wrapping writer; \<open>Server_ServeHTTP_answer\<close> relates it to \<open>Server_ServeHTTP\<close>.
  \<^item> \<open>src/pkg/util\<close> and \<open>src/pkg/logger\<close>: \<open>Util\<close> (byte counts with 64-bit arithmetic, counting reader and writer; the locale
    \<open>response_writer\<close> for writers around writers) and \<open>Logger\<close>, where a handler is a program that reads the body and works on the
    response writer, so that the middleware can run it on the counting ones.
  \<^item> \<open>src/cmd/razvhost/main.go\<close>: \<open>Main_Program\<close>, with the listeners of \<open>Server.Serve\<close> and \<open>Server.Debug\<close>, and \<open>Process\<close>, the life of the
    process from its start to its exit with \<open>Server.Shutdown\<close>, as a step relation that also counts the requests of the listeners that
    \<open>Shutdown\<close> does not know.
  \<^item> The Go library as far as the program uses it: \<open>GoStrings\<close> (strings, UTF-8), \<open>GoPath\<close> (\<open>path\<close>, \<open>filepath.Match\<close>),
    \<open>GoURL\<close> (\<open>net/url\<close> of Go 1.18) and \<open>GoHTTP\<close> (headers, requests, responses, \<open>http.Redirect\<close>).
  \<^item> \<open>Prelude\<close> and \<open>Progress\<close>: outcomes of calls that may panic, slices, named collections; and the locale \<open>progress\<close> for
    goroutines that must end together, interpreted on the pipe.
  \<^item> \<open>Watching\<close>, \<open>Containers\<close>, \<open>Sites\<close> and this theory: the composition of file, watcher, containers, server, router and file server.

  \<^bold>\<open>Conventions.\<close> Definitions keep the names of the code; a method \<open>T.M\<close> is \<open>T_M\<close>. Structs are records, and
  a call that may panic returns an \<open>outcome\<close>; errors are values of a sum or an option. Strings are lists of bytes.
  A handler's effect is an \<open>Answer\<close> (headers, status, pieces of the body), which \<open>reply\<close> performs on the plain response writer and
  \<open>pathPrefix_respond\<close> on the wrapping one. The plain writer takes everything that is written to it; a client that
  does not is modelled in \<open>Pipe\<close>.

  \<^bold>\<open>What is a parameter.\<close> The template engine of configuration files (\<open>tpl\<close>, a function of the text: a template that asks for the time or for
  random values is outside of the model), the answers of the operating system and of the
  AWS session (\<open>OS\<close>: the code asks \<open>os.Stat\<close>, the working directory and AWS again at every configuration event; in the model their answers
  are the same during a whole run, so a target whose file appears or disappears between two events is outside of it), the disk (\<open>Disk\<close>), the Docker daemon (\<open>Docker\<close>), the SSH and SFTP servers and the buckets (\<open>Storage\<close>), the proxied
  servers and FastCGI (\<open>Backends\<close>, with the HTML tokenizer and the content type detection; forwarding to a proxied server and FastCGI may
  panic, as \<open>httputil.ReverseProxy\<close> does with \<open>http.ErrAbortHandler\<close> when a body breaks off),
  \<open>http.ServeContent\<close>, \<open>http.ServeFile\<close>, the user agent parser and the clock.

  \<^bold>\<open>What is shown.\<close>

  \<^item> From the file to the answer: the configuration that was read last decides who answers a request (this theory),
    because a server that keeps up with its watched file holds exactly its accepted entries, as long as no configuration repeats a pair
    (\<open>Watching\<close>), no batch of events is lost or
    invented, and only one of several sleeping reload tasks goes on (\<open>Config\<close>). If all targets are accepted, no
    hostname that is configured before and after a reload is ever without a route (\<open>Server\<close>); the
    file and the registered containers together make up the routes, however their events are interleaved (\<open>Containers\<close>).
  \<^item> The router refines a table of handlers per path under every sequence of operations and never panics; it selects the
    longest match and takes the handlers of a path in turn (\<open>Mux\<close>).
  \<^item> Pages: copying from the streamer ends and renders the tokens whatever the buffer sizes; rewriting locations and
    stripping host paths are inverse for links below the target's path; redirects lead to the target; the pipe delivers a body to a client that takes it
    (\<open>Stream\<close>, \<open>Handlers\<close>, \<open>Pipe\<close>).
  \<^item> Files: what a request opens, as a relation on links; complete listings whose links
    lead back through the site and whose markup no file name can change; a file site serves the files below its directory and no
    request can tell apart disks that differ elsewhere (\<open>FileServer\<close>, \<open>FileTemplate\<close>, \<open>Sites\<close>).
  \<^item> Handlers: the factory builds the handler that host and target name and fails exactly in the stated cases, when a request panics, and that every
    other request is answered (\<open>Handlers\<close>, \<open>Sites\<close>); the debug interface serves a host as the server does, relocated (\<open>Server\<close>).
  \<^item> Headers, counters, logging, byte counts, the command line, the phases of the process (\<open>Server\<close>, \<open>Util\<close>, \<open>Logger\<close>, \<open>Main_Program\<close>, \<open>Process\<close>).
  \<^item> Where the code does not do what it means to, a theorem states what it does: host policy, order of batches, repeated
    pairs, a lost watch, links to directories, connections and addresses of SFTP, embedded assets, S3 prefixes, wildcard host paths, a gone
    client, containers that exit by themselves, a shutdown cut short or leaving requests behind.

  \<^bold>\<open>Bounds.\<close> No fuel is used: loops are structural or have a termination proof (\<open>resolve_loop\<close> by the code's own limit of 16
  links, \<open>byteCount_loop\<close> by division, \<open>copyStream\<close> by the list of buffer sizes, with a theorem that enough reads reach the
  end). Routers are assumed to have fewer than \<open>2^32\<close> handlers per path, where the code's 32-bit counter
  would wrap to zero handlers; byte counts are 64-bit.

  \<^bold>\<open>Not modelled.\<close> The parsing of the command line by \<open>flag\<close>; the TLS and ACME machinery behind
  \<open>certManager\<close>; \<open>Close\<close> methods that only forward to the wrapped
  object; the vendored packages. Locks are represented by the atomicity of the operations they protect.
\<close>

section \<open>From the file to the answer\<close>

lemma main_NewServer:
  assumes "main os newConfig docker version fl = Ret (srv, Some c0, listeners)" "\<not> fl_WatchDockerEvents fl"
  shows "newConfig = Inr c0" "holds os [] srv" "built os srv"
proof -
  have new: "NewServer os newConfig docker (main_config version fl) = Ret (srv, Some c0)"
    using assms(1) by (auto simp: main_def)
  have nd: "\<not> sc_WatchDockerEvents (main_config version fl)" using assms(2) by (simp add: main_config_def)
  show "newConfig = Inr c0"
    using new nd by (auto simp: NewServer_def loadConfig_def Let_def split: if_splits sum.splits prod.splits)
  have mux: "sv_mux srv = Mux_zero"
    using new nd by (auto simp: NewServer_def Let_def Println_def split: if_splits sum.splits prod.splits option.splits)
  show "holds os [] srv" "built os srv"
    by (simp_all add: holds_def built_def mux mux_targets_def routes_def accepted_def fun_eq_iff)
qed

text \<open>
  C1. The configuration file decides who answers a request. The program, started without Docker, has processed everything that its
  watched file has caused so far, in a run in which it kept up with the reloads and no configuration
  repeated a pair. Then a request that matches no accepted hostname of the configuration that was read last is
  answered with a 403, and any other by a handler that the factory built for one of the matching entries, with the
  headers of request and response updated.
\<close>

theorem watched_file_decides_requests:
  assumes "main os (NewConfig tpl content None) docker version fl = Ret (srv, Some c0, listeners)" "\<not> fl_WatchDockerEvents fl"
    and "calm_run tpl c0 ls hist c" "cfg_events c = []" "cfg_senders c = []"
    and "regular os (sv_factory srv) ([] # cfg_prevEntries c0 # hist)" "length (cfg_prevEntries c) < 2 ^ 32"
  shows "let s = Listen os (delivered ls) srv;
      matching = filter (\<lambda>e. path_matches (ce_Hostname e) (r_Host r @ Path (r_URL r))) (accepted os (sv_factory srv) (cfg_prevEntries c));
      (wh, r') = updateHeaders (main_config version fl) (w_Header w) r
    in if matching = []
       then Server_ServeHTTP be s w r = Ret (http_Error w (''Cannot serve path: '' @ r_Host r @ Path (r_URL r)) StatusForbidden, s)
       else \<exists>e \<in> set matching. \<exists>t h m. URL_String t = URL_String (ce_Target e) \<and>
         HandlerFactory_Handler os (sv_factory srv) (ce_Hostname e) t = Inr h \<and>
         Server_ServeHTTP be s w r = bind_outcome (Handler_ServeHTTP be h (w\<lparr>w_Header := wh\<rparr>) r') (\<lambda>w'. Ret (w', s\<lparr>sv_mux := m\<rparr>))"
proof -
  note start = main_NewServer [OF assms(1,2)]
  let ?s = "Listen os (delivered ls) srv"
  have holds: "holds os (cfg_prevEntries c) ?s"
    by (rule listening_follows [OF start(1) assms(3,4,5) start(2) assms(6)])
  have "wf_mux (sv_mux srv)" using start(2) by (simp add: holds_def)
  then have built: "built os ?s" using start(3) by (simp add: Listen_ProcessEvents built_ProcessEvents)
  have fields: "sv_factory ?s = sv_factory srv" "sv_config ?s = main_config version fl"
    using assms(1) NewServer_config by (auto simp: Listen_ProcessEvents ProcessEvents_fields main_def)
  note dispatch = request_dispatch [OF holds built holds_serving [OF holds built assms(7)], of r be w, unfolded fields]
  obtain wh r' where uh: "updateHeaders (main_config version fl) (w_Header w) r = (wh, r')" by fastforce
  show ?thesis
  proof (cases "\<exists>e \<in> set (accepted os (sv_factory srv) (cfg_prevEntries c)). path_matches (ce_Hostname e) (r_Host r @ Path (r_URL r))")
    case True
    with dispatch uh obtain e t h m where "e \<in> set (accepted os (sv_factory srv) (cfg_prevEntries c))"
      "path_matches (ce_Hostname e) (r_Host r @ Path (r_URL r))" "URL_String t = URL_String (ce_Target e)"
      "HandlerFactory_Handler os (sv_factory srv) (ce_Hostname e) t = Inr h"
      "Server_ServeHTTP be ?s w r = bind_outcome (Handler_ServeHTTP be h (w\<lparr>w_Header := wh\<rparr>) r') (\<lambda>w'. Ret (w', ?s\<lparr>sv_mux := m\<rparr>))"
      by (simp only: if_True fst_conv snd_conv) blast
    moreover from this(1,2) have ne: "filter (\<lambda>e. path_matches (ce_Hostname e) (r_Host r @ Path (r_URL r)))
        (accepted os (sv_factory srv) (cfg_prevEntries c)) \<noteq> []" unfolding filter_empty_conv by blast
    ultimately show ?thesis unfolding Let_def uh prod.case if_not_P [OF ne] set_filter by blast
  next
    case False
    then show ?thesis using dispatch uh by (simp add: Let_def filter_empty_conv)
  qed
qed

lemma proxied_by_idle_backend:
  assumes "HandlerFactory_Handler os hf host t = Inr h" "URL_String t = ''http://'' @ x" "w_Sent w = None"
  shows "\<exists>out. Handler_ServeHTTP idle_backends h w r = Ret out \<and> map_option fst (w_Sent out) = Some StatusOK"
proof -
  have "Scheme t \<in> {''file'', ''http'', ''https'', ''redirect'', ''s3'', ''sftp'', ''php'', ''go-wasm'', ''tail'', ''tail-new''}"
    using assms(1) by (auto simp: HandlerFactory_Handler_def Let_def split: prod.splits if_splits)
  with URL_String_scheme [of t] assms(2) have "Scheme t = ''http''" by auto
  with assms(1) obtain hostname hostPath where h: "h = PathCombinations (ReverseProxy t) hostname hostPath (Path t)"
    by (auto simp: HandlerFactory_Handler_def newProxyHandler_def split: prod.splits)
  obtain r' where "director t (r\<lparr>r_URL := stripHostPath hostPath (r_URL r)\<rparr>) = Ret r'" using director_total by blast
  moreover have "be_tokenize idle_backends [] = []"
    "be_RoundTrip idle_backends r' hs = Ret \<lparr>an_Header = hs, an_Status = Some StatusOK, an_Body = [Path (r_URL r')]\<rparr>" for hs
    by (simp_all add: idle_backends_def)
  ultimately show ?thesis
    using assms(3) by (simp add: h Handler_ServeHTTP_def handlePathCombinations_def BaseHandler_serve_def respond_explicit)
qed

theorem watched_file_decides_requests_witness:
  "\<exists>srv c0 listeners ls c. main empty_OS (NewConfig Inr (Inr ''a.com -> http://x'') None) \<lparr>dk_New = None, dk_List = Inr [], dk_Events = None\<rparr>
       ''1.0'' default_flags = Ret (srv, Some c0, listeners) \<and>
     calm_run Inr c0 ls [[plain_entry ''b.com'' ''y'']] c \<and> cfg_prevEntries c = [plain_entry ''b.com'' ''y''] \<and>
     (let s = Listen empty_OS (delivered ls) srv in
      Server_ServeHTTP idle_backends s Response_zero (get_request ''a.com'' ''/x'') =
        Ret (http_Error Response_zero ''Cannot serve path: a.com/x'' StatusForbidden, s) \<and>
      (\<exists>out s'. Server_ServeHTTP idle_backends s Response_zero (get_request ''b.com'' ''/x'') = Ret (out, s') \<and>
        map_option fst (w_Sent out) = Some StatusOK))"
proof -
  let ?docker = "\<lparr>dk_New = None, dk_List = Inr [], dk_Events = None\<rparr>" and ?new = "NewConfig Inr (Inr ''a.com -> http://x'') None"
  let ?a = "get_request ''a.com'' ''/x''" and ?b = "get_request ''b.com'' ''/x''"
  obtain srv watched listeners where m0: "main empty_OS ?new ?docker ''1.0'' default_flags = Ret (srv, watched, listeners)"
    and w: "watched = (case ?new of Inl err \<Rightarrow> None | Inr c \<Rightarrow> Some c)" by (rule main_default) blast
  obtain c0 ls c where r: "?new = Inr c0" "calm_run Inr c0 ls [[plain_entry ''b.com'' ''y'']] c" "cfg_events c = []" "cfg_senders c = []"
    "cfg_prevEntries c = [plain_entry ''b.com'' ''y'']"
    "regular empty_OS (sv_factory srv) ([] # cfg_prevEntries c0 # [[plain_entry ''b.com'' ''y'']])" by (rule reload_run) blast
  have m: "main empty_OS ?new ?docker ''1.0'' default_flags = Ret (srv, Some c0, listeners)" using m0 w r(1) by simp
  have nd: "\<not> fl_WatchDockerEvents default_flags" by (simp add: default_flags_def)
  have len: "length (cfg_prevEntries c) < 2 ^ 32" by (simp add: r(5))
  note decides = watched_file_decides_requests [OF m nd r(2-4,6) len, where w = Response_zero and be = idle_backends]
  have q: "r_Host ?a @ Path (r_URL ?a) = ''a.com/x''" "r_Host ?b @ Path (r_URL ?b) = ''b.com/x''" by (simp_all add: get_request_def URL_zero_def)
  have acc: "accepted empty_OS (sv_factory srv) (cfg_prevEntries c) = [plain_entry ''b.com'' ''y'']"
    using accepts_plain [of "sv_factory srv"] by (simp add: r(5) accepted_def accepts_def)
  have host: "ce_Hostname (plain_entry ''b.com'' ''y'') = ''b.com''" by (simp add: plain_entry_def)
  have match: "\<not> path_matches ''b.com'' ''a.com/x''" "path_matches ''b.com'' ''b.com/x''" by code_simp+
  have u: "URL_String (ce_Target (plain_entry ''b.com'' ''y'')) = ''http://y''" by code_simp
  let ?s = "Listen empty_OS (delivered ls) srv"
  have refused: "Server_ServeHTTP idle_backends ?s Response_zero ?a = Ret (http_Error Response_zero ''Cannot serve path: a.com/x'' StatusForbidden, ?s)"
    using decides [of ?a] by (simp add: acc host match q Let_def split: prod.splits)
  obtain wh r' where uh: "updateHeaders (main_config ''1.0'' default_flags) (w_Header Response_zero) ?b = (wh, r')" by fastforce
  obtain t h m1 where t: "URL_String t = URL_String (ce_Target (plain_entry ''b.com'' ''y''))"
      "HandlerFactory_Handler empty_OS (sv_factory srv) ''b.com'' t = Inr h"
    and answer: "Server_ServeHTTP idle_backends ?s Response_zero ?b =
      bind_outcome (Handler_ServeHTTP idle_backends h (Response_zero\<lparr>w_Header := wh\<rparr>) r') (\<lambda>w'. Ret (w', ?s\<lparr>sv_mux := m1\<rparr>))"
    using decides [of ?b] by (auto simp: acc host match q Let_def uh)
  obtain out where "Handler_ServeHTTP idle_backends h (Response_zero\<lparr>w_Header := wh\<rparr>) r' = Ret out" "map_option fst (w_Sent out) = Some StatusOK"
    using proxied_by_idle_backend [OF t(2), of "''y''" "Response_zero\<lparr>w_Header := wh\<rparr>" r'] t(1) u by (auto simp: Response_zero_def)
  with answer have "Server_ServeHTTP idle_backends ?s Response_zero ?b = Ret (out, ?s\<lparr>sv_mux := m1\<rparr>) \<and> map_option fst (w_Sent out) = Some StatusOK"
    by simp
  with refused m r(2,5) show ?thesis unfolding Let_def by blast
qed

end
